theory Spec2Isabelle
  imports Main "HOL-Library.Word"
begin

section \<open>Characters and strings of the host language\<close>

text \<open>
  The interpreter works on JavaScript strings. They are modelled as HOL strings over
  8-bit code units, so the model covers sources whose code units are below 256
  (ASCII and Latin-1). The character classes below are the regular-expression classes
  of ECMAScript restricted to that range.
\<close>

definition code_of :: "char \<Rightarrow> nat" where
  "code_of c = of_char c"

text \<open>\<open>\s\<close> and \<open>trim()\<close>: TAB, LF, VT, FF, CR, SPACE and NBSP.\<close>

definition is_space :: "char \<Rightarrow> bool" where
  "is_space c = (code_of c \<in> {9, 10, 11, 12, 13, 32, 160})"

text \<open>The line terminators which \<open>.\<close> does not match.\<close>

definition is_line_terminator :: "char \<Rightarrow> bool" where
  "is_line_terminator c = (code_of c \<in> {10, 13})"

definition is_upper :: "char \<Rightarrow> bool" where
  "is_upper c = (65 \<le> code_of c \<and> code_of c \<le> 90)"

definition is_lower :: "char \<Rightarrow> bool" where
  "is_lower c = (97 \<le> code_of c \<and> code_of c \<le> 122)"

definition is_digit :: "char \<Rightarrow> bool" where
  "is_digit c = (48 \<le> code_of c \<and> code_of c \<le> 57)"

text \<open>\<open>\w\<close> is \<open>[A-Za-z0-9_]\<close>.\<close>

definition is_word :: "char \<Rightarrow> bool" where
  "is_word c = (is_upper c \<or> is_lower c \<or> is_digit c \<or> c = CHR ''_'')"

text \<open>\<open>[A-Za-z_.$]\<close> and \<open>[\w.$]\<close>, the first and the later characters of a label.\<close>

definition is_label_start :: "char \<Rightarrow> bool" where
  "is_label_start c = (is_upper c \<or> is_lower c \<or> c = CHR ''_'' \<or> c = CHR ''.'' \<or> c = CHR ''$'')"

definition is_label_char :: "char \<Rightarrow> bool" where
  "is_label_char c = (is_word c \<or> c = CHR ''.'' \<or> c = CHR ''$'')"

text \<open>\<open>[0-9a-fA-F]\<close>.\<close>

definition is_hex_digit :: "char \<Rightarrow> bool" where
  "is_hex_digit c = (is_digit c \<or> (97 \<le> code_of c \<and> code_of c \<le> 102) \<or> (65 \<le> code_of c \<and> code_of c \<le> 70))"

text \<open>
  Matching a pattern letter under the \<open>i\<close> flag: both characters are canonicalised
  by upper-casing; a code unit of 128 or more never canonicalises to an ASCII letter,
  so for an ASCII pattern letter this is equality up to ASCII case.
\<close>

definition to_upper :: "char \<Rightarrow> char" where
  "to_upper c = (if is_lower c then char_of (code_of c - 32) else c)"

definition to_lower :: "char \<Rightarrow> char" where
  "to_lower c = (if is_upper c then char_of (code_of c + 32) else c)"

definition ci :: "char \<Rightarrow> char \<Rightarrow> bool" where
  "ci p c = (to_upper c = to_upper p)"

text \<open>\<open>String.prototype.trim\<close>.\<close>

definition trim :: "string \<Rightarrow> string" where
  "trim s = rev (dropWhile is_space (rev (dropWhile is_space s)))"

text \<open>\<open>String.prototype.split\<close> with a one-character separator.\<close>

fun split_on :: "char \<Rightarrow> string \<Rightarrow> string list" where
  "split_on sep [] = [[]]"
| "split_on sep (c # cs) =
     (if c = sep then [] # split_on sep cs
      else (case split_on sep cs of
              [] \<Rightarrow> [[c]]
            | w # ws \<Rightarrow> (c # w) # ws))"

text \<open>
  \<open>replace\<close> with a global two-character literal pattern (\<open>/\\n/g\<close>, \<open>/\\"/g\<close>):
  every non-overlapping occurrence of \<open>a b\<close>, from the left, becomes \<open>r\<close>.
\<close>

fun replace_all2 :: "char \<Rightarrow> char \<Rightarrow> char \<Rightarrow> string \<Rightarrow> string" where
  "replace_all2 a b r (x # y # s) =
     (if x = a \<and> y = b then r # replace_all2 a b r s else x # replace_all2 a b r (y # s))"
| "replace_all2 a b r s = s"

section \<open>Regular expressions\<close>

text \<open>
  The interpreter decodes every line with \<open>String.prototype.match\<close>. The patterns it
  uses are built from the constructors below; \<open>rx_run\<close> is the backtracking matcher of
  ECMAScript written as a list of successes: the results of matching at a position, in
  the order in which backtracking would try them. A state is the position reached and
  the captures made so far.
\<close>

datatype rx =
    Sym "char \<Rightarrow> bool"
  | Eps
  | Seq rx rx
  | Alt rx rx
  | Star rx
  | Grp nat rx
  | Bol
  | Eol
  | Bnd

type_synonym caps = "(nat \<times> string) list"

text \<open>
  A greedy star first tries one more iteration, then stopping. An iteration that
  consumes nothing is rejected, so from position \<open>i\<close> at most \<open>length s - i\<close>
  iterations can happen: the counter below is that bound.
\<close>

primrec rx_star :: "(nat \<times> caps \<Rightarrow> (nat \<times> caps) list) \<Rightarrow> nat \<Rightarrow> nat \<times> caps \<Rightarrow> (nat \<times> caps) list" where
  "rx_star f 0 x = [x]"
| "rx_star f (Suc n) x =
     concat (map (rx_star f n) (filter (\<lambda>y. fst x < fst y) (f x))) @ [x]"

definition at_word :: "string \<Rightarrow> nat \<Rightarrow> bool" where
  "at_word s i = (i < length s \<and> is_word (s ! i))"

primrec rx_run :: "rx \<Rightarrow> string \<Rightarrow> nat \<times> caps \<Rightarrow> (nat \<times> caps) list" where
  "rx_run (Sym p) s x = (if fst x < length s \<and> p (s ! fst x) then [(Suc (fst x), snd x)] else [])"
| "rx_run Eps s x = [x]"
| "rx_run (Seq a b) s x = concat (map (rx_run b s) (rx_run a s x))"
| "rx_run (Alt a b) s x = rx_run a s x @ rx_run b s x"
| "rx_run (Star a) s x = rx_star (rx_run a s) (length s - fst x) x"
| "rx_run (Grp n a) s x =
     map (\<lambda>y. (fst y, (n, take (fst y - fst x) (drop (fst x) s)) # snd y)) (rx_run a s x)"
| "rx_run Bol s x = (if fst x = 0 then [x] else [])"
| "rx_run Eol s x = (if fst x = length s then [x] else [])"
| "rx_run Bnd s x =
     (if (0 < fst x \<and> at_word s (fst x - 1)) \<noteq> at_word s (fst x) then [x] else [])"

text \<open>The derived forms \<open>r+\<close>, \<open>r?\<close>, a literal string and a literal under the \<open>i\<close> flag.\<close>

definition Plus :: "rx \<Rightarrow> rx" where
  "Plus r = Seq r (Star r)"

definition Opt :: "rx \<Rightarrow> rx" where
  "Opt r = Alt r Eps"

definition Lit :: "string \<Rightarrow> rx" where
  "Lit s = foldr (\<lambda>c r. Seq (Sym (\<lambda>x. x = c)) r) s Eps"

definition LitI :: "string \<Rightarrow> rx" where
  "LitI s = foldr (\<lambda>c r. Seq (Sym (ci c)) r) s Eps"

definition Seqs :: "rx list \<Rightarrow> rx" where
  "Seqs rs = foldr Seq rs Eps"

text \<open>
  \<open>exec\<close>: the first start position, from the left, at which the pattern matches, with
  the end position and the captures of the first success there.
\<close>

primrec rx_search :: "rx \<Rightarrow> string \<Rightarrow> nat \<Rightarrow> nat \<Rightarrow> (nat \<times> nat \<times> caps) option" where
  "rx_search r s 0 i = None"
| "rx_search r s (Suc k) i =
     (case rx_run r s (i, []) of
        [] \<Rightarrow> rx_search r s k (Suc i)
      | y # _ \<Rightarrow> Some (i, fst y, snd y))"

definition rx_exec :: "rx \<Rightarrow> string \<Rightarrow> (nat \<times> nat \<times> caps) option" where
  "rx_exec r s = rx_search r s (Suc (length s)) 0"

text \<open>\<open>s.match(r)\<close> without the \<open>g\<close> flag: the captures, or nothing.\<close>

definition rx_match :: "rx \<Rightarrow> string \<Rightarrow> caps option" where
  "rx_match r s = map_option (\<lambda>m. snd (snd m)) (rx_exec r s)"

definition rx_test :: "rx \<Rightarrow> string \<Rightarrow> bool" where
  "rx_test r s = (rx_exec r s \<noteq> None)"

text \<open>\<open>s.replace(r, '')\<close> without the \<open>g\<close> flag: the first match is removed.\<close>

definition rx_remove :: "rx \<Rightarrow> string \<Rightarrow> string" where
  "rx_remove r s = (case rx_exec r s of None \<Rightarrow> s | Some m \<Rightarrow> take (fst m) s @ drop (fst (snd m)) s)"

text \<open>
  The text of capture group \<open>n\<close>. Every group of the patterns below takes part in every
  match, so the default is never used.
\<close>

definition grp :: "caps \<Rightarrow> nat \<Rightarrow> string" where
  "grp c n = (case map_of c n of None \<Rightarrow> [] | Some t \<Rightarrow> t)"

section \<open>Numeric and operand utilities\<close>

text \<open>
  JavaScript numbers are modelled by \<open>int\<close>: the interpreter only ever stores the
  results of \<open>| 0\<close>, which are integers. Sums and differences are exact in the model;
  JavaScript computes them exactly for operands below \<open>2^53\<close> in magnitude, hence for the
  32-bit values that registers hold. \<open>x | 0\<close> is the ToInt32 conversion: reduce modulo
  \<open>2^32\<close> and read the result as two's complement.
\<close>

definition toInt32 :: "int \<Rightarrow> int" where
  "toInt32 x = (let k = x mod 2 ^ 32 in if k \<ge> 2 ^ 31 then k - 2 ^ 32 else k)"

text \<open>
  The Number nearest to a non-negative integer (round to nearest, ties to even, 53
  bits of precision); \<open>None\<close> stands for \<open>Infinity\<close>. Integers below \<open>2^53\<close> are
  exact.
\<close>

function bit_length :: "int \<Rightarrow> nat" where
  "bit_length n = (if n \<le> 0 then 0 else Suc (bit_length (n div 2)))"
  by pat_completeness auto
termination
  by (relation "measure nat") auto

declare bit_length.simps [simp del]

definition round_double :: "int \<Rightarrow> int option" where
  "round_double n =
     (if n < 2 ^ 53 then Some n
      else let e = bit_length n - 53;
               q = n div 2 ^ e;
               r = n mod 2 ^ e;
               h = 2 ^ (e - 1);
               q' = (if r > h \<or> (r = h \<and> odd q) then q + 1 else q);
               v = q' * 2 ^ e
           in if v \<ge> 2 ^ 1024 then None else Some v)"

definition digit_val :: "char \<Rightarrow> int" where
  "digit_val c =
     (if is_digit c then int (code_of c) - 48
      else if is_lower c then int (code_of c) - 87
      else int (code_of c) - 55)"

definition is_radix_digit :: "int \<Rightarrow> char \<Rightarrow> bool" where
  "is_radix_digit radix c = (if radix = 16 then is_hex_digit c else is_digit c)"

definition has_hex_prefix :: "string \<Rightarrow> bool" where
  "has_hex_prefix s = (case s of a # b # _ \<Rightarrow> a = CHR ''0'' \<and> (b = CHR ''x'' \<or> b = CHR ''X'') | _ \<Rightarrow> False)"

text \<open>
  \<open>Number.parseInt(s, radix)\<close> for radix 10 and 16: leading white space, an optional
  sign, for radix 16 an optional \<open>0x\<close>, then the longest prefix of digits. \<open>None\<close>
  stands for a result that is not finite (\<open>NaN\<close> when there is no digit, an infinity
  when the digits overflow the Number range). The digits are read exactly and the result
  rounded once; ECMAScript lets an implementation approximate decimal literals of more
  than 20 significant digits.
\<close>

definition parseInt :: "string \<Rightarrow> int \<Rightarrow> int option" where
  "parseInt input radix =
     (let s0 = dropWhile is_space input;
          neg = (s0 \<noteq> [] \<and> hd s0 = CHR ''-'');
          s1 = (if s0 \<noteq> [] \<and> (hd s0 = CHR ''+'' \<or> hd s0 = CHR ''-'') then tl s0 else s0);
          s2 = (if radix = 16 \<and> has_hex_prefix s1 then drop 2 s1 else s1);
          z = takeWhile (is_radix_digit radix) s2
      in if z = [] then None
         else (case round_double (foldl (\<lambda>a c. a * radix + digit_val c) 0 z) of
                 None \<Rightarrow> None
               | Some v \<Rightarrow> Some (if neg then - v else v)))"

text \<open>The pattern \<open>/^-?0x[0-9a-fA-F]+$/\<close>.\<close>

definition re_hex :: rx where
  "re_hex = Seqs [Bol, Opt (Lit ''-''), Lit ''0x'', Plus (Sym is_hex_digit), Eol]"

definition parseMipsNumber :: "string \<Rightarrow> int option" where
  "parseMipsNumber raw =
     (let v = trim raw
      in if v = [] then None
         else (case (if rx_test re_hex v then parseInt v 16 else parseInt v 10) of
                 None \<Rightarrow> None
               | Some parsed \<Rightarrow> Some (toInt32 parsed)))"

definition sanitizeMipsMemoryAddress :: "int \<Rightarrow> int" where
  "sanitizeMipsMemoryAddress address = toInt32 address"

text \<open>
  \<open>String(n)\<close> of an integer: its decimal digits, with a minus sign when negative
  (the form JavaScript uses below \<open>10^21\<close> in magnitude).
\<close>

function digits_of :: "int \<Rightarrow> string" where
  "digits_of n =
     (if n < 10 then [char_of (48 + n)]
      else digits_of (n div 10) @ [char_of (48 + n mod 10)])"
  by pat_completeness auto
termination
  by (relation "measure nat") auto

declare digits_of.simps [simp del]

definition String_of_number :: "int \<Rightarrow> string" where
  "String_of_number i = (if i < 0 then CHR ''-'' # digits_of (- i) else digits_of i)"

section \<open>Program loader\<close>

definition MIPS_REGISTERS :: "string list" where
  "MIPS_REGISTERS =
     [''$zero'', ''$at'',
      ''$v0'', ''$v1'',
      ''$a0'', ''$a1'', ''$a2'', ''$a3'',
      ''$t0'', ''$t1'', ''$t2'', ''$t3'', ''$t4'', ''$t5'', ''$t6'', ''$t7'', ''$t8'', ''$t9'',
      ''$s0'', ''$s1'', ''$s2'', ''$s3'', ''$s4'', ''$s5'', ''$s6'', ''$s7'',
      ''$k0'', ''$k1'',
      ''$gp'', ''$sp'', ''$fp'', ''$ra'']"

definition MIPS_REGISTER_SET :: "string set" where
  "MIPS_REGISTER_SET = set MIPS_REGISTERS"

definition MIPS_MAX_STEPS :: int where
  "MIPS_MAX_STEPS = 10000"

definition MIPS_DATA_BASE :: int where
  "MIPS_DATA_BASE = 0x10010000"

datatype MipsMachineStatus = Ready | Halted | Error

record MipsProgram =
  instructions :: "string list"
  labels :: "string \<rightharpoonup> int"
  dataByAddress :: "int \<rightharpoonup> string"
  dataAddresses :: "string \<rightharpoonup> int"

text \<open>The local variables of the loader's loop, on top of the tables it builds.\<close>

record loader = MipsProgram +
  nextDataAddress :: int
  inText :: bool

definition dot :: "char \<Rightarrow> bool" where
  "dot c = (\<not> is_line_terminator c)"

definition chr :: "char \<Rightarrow> char \<Rightarrow> bool" where
  "chr p c = (c = p)"

text \<open>\<open>/#.*$/\<close>, \<open>/^\.globl\b/i\<close> and \<open>/^([A-Za-z_.$][\w.$]*):\s*(.*)$/\<close>.\<close>

definition re_comment :: rx where
  "re_comment = Seqs [Sym (chr CHR ''#''), Star (Sym dot), Eol]"

definition re_globl :: rx where
  "re_globl = Seqs [Bol, LitI ''.globl'', Bnd]"

definition re_label :: rx where
  "re_label = Seq (Sym is_label_start) (Star (Sym is_label_char))"

definition re_inlineLabel :: rx where
  "re_inlineLabel =
     Seqs [Bol, Grp 1 re_label, Sym (chr CHR '':''), Star (Sym is_space), Grp 2 (Star (Sym dot)), Eol]"

text \<open>\<open>/^\.asciiz\s+"([\s\S]*)"$/i\<close> and \<open>/^\.word\s+(.+)$/i\<close>.\<close>

definition re_asciiz :: rx where
  "re_asciiz =
     Seqs [Bol, LitI ''.asciiz'', Plus (Sym is_space), Sym (chr (CHR 0x22)),
           Grp 1 (Star (Sym (\<lambda>c. True))), Sym (chr (CHR 0x22)), Eol]"

definition re_words :: rx where
  "re_words = Seqs [Bol, LitI ''.word'', Plus (Sym is_space), Grp 1 (Plus (Sym dot)), Eol]"

text \<open>
  A line of the data segment: \<open>.asciiz\<close> records its text at the address of the line's
  label (or at the cursor) and moves the cursor past the text and its terminator;
  \<open>.word\<close> only moves the cursor; any other line is skipped.
\<close>

definition parse_data_line :: "loader \<Rightarrow> caps option \<Rightarrow> string \<Rightarrow> loader" where
  "parse_data_line st inlineLabel line =
     (let key = (case inlineLabel of None \<Rightarrow> [] | Some m \<Rightarrow> grp m 1);
          address = (case dataAddresses st key of None \<Rightarrow> nextDataAddress st | Some a \<Rightarrow> a)
      in case rx_match re_asciiz line of
           Some asciiz \<Rightarrow>
             (let normalized =
                    replace_all2 (CHR 0x5C) (CHR 0x22) (CHR 0x22)
                      (replace_all2 (CHR 0x5C) CHR ''n'' (CHR 0x0A) (grp asciiz 1))
              in st\<lparr>dataByAddress := (dataByAddress st)(address \<mapsto> normalized),
                     nextDataAddress := address + int (length normalized) + 1\<rparr>)
         | None \<Rightarrow>
             (case rx_match re_words line of
                Some words \<Rightarrow>
                  (let values = filter (\<lambda>p. p \<noteq> []) (map trim (split_on CHR '','' (grp words 1)))
                   in st\<lparr>nextDataAddress := address + max 1 (int (length values)) * 4\<rparr>)
              | None \<Rightarrow> st))"

text \<open>The body of the loop over the cleaned lines.\<close>

definition parse_line :: "loader \<Rightarrow> string \<Rightarrow> loader" where
  "parse_line st rawLine =
     (if rawLine = ''.text'' then st\<lparr>inText := True\<rparr>
      else if rawLine = ''.data'' then st\<lparr>inText := False\<rparr>
      else if rx_test re_globl rawLine then st
      else
        (let inlineLabel = rx_match re_inlineLabel rawLine;
             st1 = (case inlineLabel of
                      None \<Rightarrow> st
                    | Some m \<Rightarrow>
                        (if inText st
                         then st\<lparr>labels := (labels st)(grp m 1 \<mapsto> int (length (instructions st)))\<rparr>
                         else if dataAddresses st (grp m 1) = None
                         then st\<lparr>dataAddresses := (dataAddresses st)(grp m 1 \<mapsto> nextDataAddress st)\<rparr>
                         else st));
             line = (case inlineLabel of None \<Rightarrow> rawLine | Some m \<Rightarrow> trim (grp m 2))
         in if inlineLabel \<noteq> None \<and> line = [] then st1
            else if \<not> inText st1 then parse_data_line st1 inlineLabel line
            else st1\<lparr>instructions := instructions st1 @ [line]\<rparr>))"

definition rawLines_of :: "string \<Rightarrow> string list" where
  "rawLines_of source =
     filter (\<lambda>line. line \<noteq> [])
       (map (\<lambda>line. trim (rx_remove re_comment line)) (split_on (CHR 0x0A) source))"

definition loader_init :: loader where
  "loader_init =
     \<lparr>instructions = [], labels = Map.empty, dataByAddress = Map.empty,
      dataAddresses = Map.empty, nextDataAddress = MIPS_DATA_BASE, inText = False\<rparr>"

definition parseMipsProgram :: "string \<Rightarrow> string + MipsProgram" where
  "parseMipsProgram source =
     (let st = foldl parse_line loader_init (rawLines_of source)
      in if instructions st = []
         then Inl ''No MIPS instructions found in .text section.''
         else Inr \<lparr>instructions = instructions st, labels = labels st,
                   dataByAddress = dataByAddress st, dataAddresses = dataAddresses st\<rparr>)"

section \<open>Machine state\<close>

type_synonym MipsMemoryState = "string \<rightharpoonup> int"
type_synonym MipsRegisterState = "string \<rightharpoonup> int"

record MipsMachineState =
  source :: string
  program :: MipsProgram
  registers :: MipsRegisterState
  memory :: MipsMemoryState
  "output" :: string
  status :: MipsMachineStatus
  error :: string
  pc :: int
  steps :: int
  touchedRegisters :: "string list"
  touchedMemory :: "string list"

text \<open>\<open>Object.fromEntries(MIPS_REGISTERS.map((reg) => [reg, 0]))\<close>.\<close>

definition zero_registers :: MipsRegisterState where
  "zero_registers = map_of (map (\<lambda>reg. (reg, 0)) MIPS_REGISTERS)"

text \<open>
  The caller's overrides are objects; they are given here as the lists of their
  entries, in the order \<open>Object.entries\<close> yields them.
\<close>

definition init_register :: "MipsRegisterState \<Rightarrow> string \<times> int \<Rightarrow> MipsRegisterState" where
  "init_register regs e =
     (if fst e \<in> MIPS_REGISTER_SET \<and> fst e \<noteq> ''$zero'' then regs(fst e \<mapsto> toInt32 (snd e)) else regs)"

definition init_memory :: "MipsMemoryState \<Rightarrow> string \<times> int \<Rightarrow> MipsMemoryState" where
  "init_memory mem e =
     (case parseMipsNumber (fst e) of
        None \<Rightarrow> mem
      | Some parsedAddress \<Rightarrow>
          mem(String_of_number (sanitizeMipsMemoryAddress parsedAddress) \<mapsto> toInt32 (snd e)))"

definition initializeMipsMachine ::
    "string \<Rightarrow> (string \<times> int) list \<Rightarrow> (string \<times> int) list \<Rightarrow> MipsMachineState" where
  "initializeMipsMachine src initialRegisters initialMemory =
     (case parseMipsProgram src of
        Inl err \<Rightarrow>
          \<lparr>source = src,
           program = \<lparr>instructions = [], labels = Map.empty, dataByAddress = Map.empty,
                      dataAddresses = Map.empty\<rparr>,
           registers = zero_registers, memory = Map.empty, output = [], status = Error,
           error = err, pc = 0, steps = 0, touchedRegisters = [], touchedMemory = []\<rparr>
      | Inr prog \<Rightarrow>
          \<lparr>source = src,
           program = prog,
           registers = (foldl init_register zero_registers initialRegisters)(''$zero'' \<mapsto> 0),
           memory = foldl init_memory Map.empty initialMemory,
           output = [], status = Ready, error = [], pc = 0, steps = 0,
           touchedRegisters = [], touchedMemory = []\<rparr>)"

definition readMipsRegister :: "MipsMachineState \<Rightarrow> string \<Rightarrow> int" where
  "readMipsRegister machine name = (case registers machine name of None \<Rightarrow> 0 | Some v \<Rightarrow> v)"

text \<open>\<open>if (!xs.includes(x)) xs.push(x)\<close>.\<close>

definition push_new :: "string \<Rightarrow> string list \<Rightarrow> string list" where
  "push_new x xs = (if x \<in> set xs then xs else xs @ [x])"

definition writeMipsRegister :: "MipsMachineState \<Rightarrow> string \<Rightarrow> int \<Rightarrow> MipsMachineState" where
  "writeMipsRegister machine name v =
     (if name \<notin> MIPS_REGISTER_SET \<or> name = ''$zero'' then machine
      else machine\<lparr>registers := (registers machine)(name \<mapsto> toInt32 v),
                   touchedRegisters := push_new name (touchedRegisters machine)\<rparr>)"

text \<open>\<open>/^(.+)\((\$\w+)\)$/\<close>, with \<open>\$\w+\<close> the syntax of a register operand.\<close>

definition re_reg :: rx where
  "re_reg = Seq (Sym (chr CHR ''$'')) (Plus (Sym is_word))"

definition re_offsetBase :: rx where
  "re_offsetBase =
     Seqs [Bol, Grp 1 (Plus (Sym dot)), Sym (chr CHR ''(''), Grp 2 re_reg, Sym (chr CHR '')''), Eol]"

definition parseMipsAddressOperand :: "MipsMachineState \<Rightarrow> string \<Rightarrow> int option" where
  "parseMipsAddressOperand machine operand =
     (case rx_match re_offsetBase operand of
        Some offsetBase \<Rightarrow>
          (let offset = parseMipsNumber (trim (grp offsetBase 1));
               base = trim (grp offsetBase 2)
           in case offset of
                None \<Rightarrow> None
              | Some off \<Rightarrow>
                  (if base \<notin> MIPS_REGISTER_SET then None
                   else Some (sanitizeMipsMemoryAddress (readMipsRegister machine base + off))))
      | None \<Rightarrow>
          (case dataAddresses (program machine) operand of
             Some a \<Rightarrow> Some a
           | None \<Rightarrow>
               (case parseMipsNumber operand of
                  None \<Rightarrow> None
                | Some direct \<Rightarrow> Some (sanitizeMipsMemoryAddress direct))))"

definition appendMipsOutput :: "MipsMachineState \<Rightarrow> string \<Rightarrow> MipsMachineState" where
  "appendMipsOutput machine text = machine\<lparr>output := output machine @ text\<rparr>"

section \<open>Instruction executor\<close>

text \<open>The instruction patterns, in the order in which a step tries them.\<close>

definition sp1 :: rx where
  "sp1 = Plus (Sym is_space)"

definition comma :: rx where
  "comma = Seqs [Star (Sym is_space), Sym (chr CHR '',''), Star (Sym is_space)]"

definition re_imm :: rx where
  "re_imm = Plus (Sym (\<lambda>c. c \<noteq> CHR '','' \<and> \<not> is_space c))"

definition re_li :: rx where
  "re_li = Seqs [Bol, LitI ''li'', sp1, Grp 1 re_reg, comma, Grp 2 re_imm, Eol]"

definition re_la :: rx where
  "re_la = Seqs [Bol, LitI ''la'', sp1, Grp 1 re_reg, comma, Grp 2 re_label, Eol]"

definition re_move :: rx where
  "re_move = Seqs [Bol, LitI ''move'', sp1, Grp 1 re_reg, comma, Grp 2 re_reg, Eol]"

definition re_addi :: rx where
  "re_addi = Seqs [Bol, LitI ''addi'', sp1, Grp 1 re_reg, comma, Grp 2 re_reg, comma, Grp 3 re_imm, Eol]"

definition re_arithmetic :: rx where
  "re_arithmetic =
     Seqs [Bol, Grp 1 (Alt (LitI ''add'') (LitI ''sub'')), sp1, Grp 2 re_reg, comma, Grp 3 re_reg,
           comma, Grp 4 re_reg, Eol]"

definition re_lw :: rx where
  "re_lw = Seqs [Bol, LitI ''lw'', sp1, Grp 1 re_reg, comma, Grp 2 (Plus (Sym dot)), Eol]"

definition re_sw :: rx where
  "re_sw = Seqs [Bol, LitI ''sw'', sp1, Grp 1 re_reg, comma, Grp 2 (Plus (Sym dot)), Eol]"

definition re_branch :: rx where
  "re_branch =
     Seqs [Bol, Grp 1 (Alt (LitI ''beq'') (LitI ''bne'')), sp1, Grp 2 re_reg, comma, Grp 3 re_reg,
           comma, Grp 4 re_label, Eol]"

definition re_jump :: rx where
  "re_jump = Seqs [Bol, LitI ''j'', sp1, Grp 1 re_label, Eol]"

definition re_syscall :: rx where
  "re_syscall = Seqs [Bol, LitI ''syscall'', Eol]"

definition fail :: "MipsMachineState \<Rightarrow> string \<Rightarrow> MipsMachineState" where
  "fail machine message = machine\<lparr>status := Error, error := message\<rparr>"

text \<open>\<open>machine.registers.$zero = 0; return machine\<close>, the end of every successful branch.\<close>

definition reset_zero :: "MipsMachineState \<Rightarrow> MipsMachineState" where
  "reset_zero machine = machine\<lparr>registers := (registers machine)(''$zero'' \<mapsto> 0)\<rparr>"

definition next_pc :: "MipsMachineState \<Rightarrow> MipsMachineState" where
  "next_pc machine = machine\<lparr>pc := pc machine + 1\<rparr>"

definition exec_li :: "MipsMachineState \<Rightarrow> caps \<Rightarrow> MipsMachineState" where
  "exec_li machine li =
     (case parseMipsNumber (grp li 2) of
        None \<Rightarrow> fail machine (''Invalid immediate value: '' @ grp li 2)
      | Some v \<Rightarrow> reset_zero (next_pc (writeMipsRegister machine (grp li 1) v)))"

definition exec_la :: "MipsMachineState \<Rightarrow> caps \<Rightarrow> MipsMachineState" where
  "exec_la machine la =
     (case dataAddresses (program machine) (grp la 2) of
        None \<Rightarrow> fail machine (''Unknown data label: '' @ grp la 2)
      | Some address \<Rightarrow> reset_zero (next_pc (writeMipsRegister machine (grp la 1) address)))"

definition exec_move :: "MipsMachineState \<Rightarrow> caps \<Rightarrow> MipsMachineState" where
  "exec_move machine move =
     reset_zero (next_pc (writeMipsRegister machine (grp move 1) (readMipsRegister machine (grp move 2))))"

definition exec_addi :: "MipsMachineState \<Rightarrow> caps \<Rightarrow> MipsMachineState" where
  "exec_addi machine addi =
     (case parseMipsNumber (grp addi 3) of
        None \<Rightarrow> fail machine (''Invalid immediate value: '' @ grp addi 3)
      | Some immediate \<Rightarrow>
          reset_zero (next_pc (writeMipsRegister machine (grp addi 1)
            (toInt32 (readMipsRegister machine (grp addi 2) + immediate)))))"

definition exec_arithmetic :: "MipsMachineState \<Rightarrow> caps \<Rightarrow> MipsMachineState" where
  "exec_arithmetic machine arithmetic =
     (let lhs = readMipsRegister machine (grp arithmetic 3);
          rhs = readMipsRegister machine (grp arithmetic 4);
          next = (if map to_lower (grp arithmetic 1) = ''add'' then lhs + rhs else lhs - rhs)
      in reset_zero (next_pc (writeMipsRegister machine (grp arithmetic 2) (toInt32 next))))"

definition touch_memory :: "MipsMachineState \<Rightarrow> string \<Rightarrow> MipsMachineState" where
  "touch_memory machine key = machine\<lparr>touchedMemory := push_new key (touchedMemory machine)\<rparr>"

definition exec_lw :: "MipsMachineState \<Rightarrow> caps \<Rightarrow> MipsMachineState" where
  "exec_lw machine lw =
     (case parseMipsAddressOperand machine (trim (grp lw 2)) of
        None \<Rightarrow> fail machine (''Invalid memory operand: '' @ grp lw 2)
      | Some address \<Rightarrow>
          (let key = String_of_number address
           in reset_zero (next_pc (touch_memory
                (writeMipsRegister machine (grp lw 1)
                   (case memory machine key of None \<Rightarrow> 0 | Some v \<Rightarrow> v)) key))))"

definition exec_sw :: "MipsMachineState \<Rightarrow> caps \<Rightarrow> MipsMachineState" where
  "exec_sw machine sw =
     (case parseMipsAddressOperand machine (trim (grp sw 2)) of
        None \<Rightarrow> fail machine (''Invalid memory operand: '' @ grp sw 2)
      | Some address \<Rightarrow>
          (let key = String_of_number address
           in reset_zero (next_pc (touch_memory
                (machine\<lparr>memory := (memory machine)(key \<mapsto> toInt32 (readMipsRegister machine (grp sw 1)))\<rparr>)
                key))))"

definition exec_branch :: "MipsMachineState \<Rightarrow> caps \<Rightarrow> MipsMachineState" where
  "exec_branch machine branch =
     (let lhs = readMipsRegister machine (grp branch 2);
          rhs = readMipsRegister machine (grp branch 3);
          shouldBranch = (if map to_lower (grp branch 1) = ''beq'' then lhs = rhs else lhs \<noteq> rhs)
      in if shouldBranch
         then (case labels (program machine) (grp branch 4) of
                 None \<Rightarrow> fail machine (''Unknown label: '' @ grp branch 4)
               | Some target \<Rightarrow> reset_zero (machine\<lparr>pc := target\<rparr>))
         else reset_zero (next_pc machine))"

definition exec_jump :: "MipsMachineState \<Rightarrow> caps \<Rightarrow> MipsMachineState" where
  "exec_jump machine jump =
     (case labels (program machine) (grp jump 1) of
        None \<Rightarrow> fail machine (''Unknown label: '' @ grp jump 1)
      | Some target \<Rightarrow> reset_zero (machine\<lparr>pc := target\<rparr>))"

text \<open>
  After a supported call the program counter advances unless the call halted the
  machine.
\<close>

definition syscall_done :: "MipsMachineState \<Rightarrow> MipsMachineState" where
  "syscall_done machine = reset_zero (if status machine \<noteq> Halted then next_pc machine else machine)"

definition exec_syscall :: "MipsMachineState \<Rightarrow> MipsMachineState" where
  "exec_syscall machine =
     (let v0 = readMipsRegister machine ''$v0''
      in if v0 = 1
         then syscall_done (appendMipsOutput machine (String_of_number (readMipsRegister machine ''$a0'')))
         else if v0 = 4
         then syscall_done (appendMipsOutput machine
                (case dataByAddress (program machine) (readMipsRegister machine ''$a0'') of
                   None \<Rightarrow> [] | Some text \<Rightarrow> text))
         else if v0 = 10
         then syscall_done (machine\<lparr>status := Halted\<rparr>)
         else if v0 = 11
         then syscall_done (appendMipsOutput machine [char_of (readMipsRegister machine ''$a0'' mod 256)])
         else fail machine (''Unsupported syscall: '' @ String_of_number v0))"

text \<open>The chain of pattern tests of a step: the first pattern that matches decides.\<close>

definition exec_instruction :: "MipsMachineState \<Rightarrow> string \<Rightarrow> MipsMachineState" where
  "exec_instruction machine inst =
     (case rx_match re_li inst of Some li \<Rightarrow> exec_li machine li | None \<Rightarrow>
      case rx_match re_la inst of Some la \<Rightarrow> exec_la machine la | None \<Rightarrow>
      case rx_match re_move inst of Some move \<Rightarrow> exec_move machine move | None \<Rightarrow>
      case rx_match re_addi inst of Some addi \<Rightarrow> exec_addi machine addi | None \<Rightarrow>
      case rx_match re_arithmetic inst of Some arithmetic \<Rightarrow> exec_arithmetic machine arithmetic | None \<Rightarrow>
      case rx_match re_lw inst of Some lw \<Rightarrow> exec_lw machine lw | None \<Rightarrow>
      case rx_match re_sw inst of Some sw \<Rightarrow> exec_sw machine sw | None \<Rightarrow>
      case rx_match re_branch inst of Some branch \<Rightarrow> exec_branch machine branch | None \<Rightarrow>
      case rx_match re_jump inst of Some jump \<Rightarrow> exec_jump machine jump | None \<Rightarrow>
      if rx_test re_syscall inst then exec_syscall machine
      else fail machine (''Unsupported instruction: '' @ inst))"

definition stepMipsMachine :: "MipsMachineState \<Rightarrow> MipsMachineState" where
  "stepMipsMachine current =
     (if status current \<noteq> Ready then current
      else if pc current < 0 \<or> pc current \<ge> int (length (instructions (program current)))
      then current\<lparr>status := Halted\<rparr>
      else if steps current \<ge> MIPS_MAX_STEPS
      then current\<lparr>status := Error, error := ''MIPS execution timed out.''\<rparr>
      else exec_instruction (current\<lparr>steps := steps current + 1\<rparr>)
             (instructions (program current) ! nat (pc current)))"

section \<open>Facts about the matcher\<close>

lemma Seqs_Cons: "Seqs (r # rs) = Seq r (Seqs rs)"
  by (simp add: Seqs_def)

lemma LitI_Nil: "LitI [] = Eps"
  by (simp add: LitI_def)

lemma LitI_Cons: "LitI (a # w) = Seq (Sym (ci a)) (LitI w)"
  by (simp add: LitI_def)

lemma concat_map_concat:
  "concat (map f (concat (map g xs))) = concat (map (\<lambda>y. concat (map f (g y))) xs)"
  by (induction xs) simp_all

lemma rx_run_Seq_fun: "rx_run (Seq b c) s = (\<lambda>y. concat (map (rx_run c s) (rx_run b s y)))"
  by (rule ext) simp

lemma rx_run_Seq_assoc: "rx_run (Seq (Seq a b) c) s x = rx_run (Seq a (Seq b c)) s x"
  by (simp add: concat_map_concat rx_run_Seq_fun)

lemma rx_run_Seq_Sym:
  "rx_run (Seq (Sym p) r) s x =
     (if fst x < length s \<and> p (s ! fst x) then rx_run r s (Suc (fst x), snd x) else [])"
proof -
  have "concat (map f (if b then [y] else [])) = (if b then f y else [])"
    for f :: "nat \<times> caps \<Rightarrow> (nat \<times> caps) list" and b y
    by simp
  then show ?thesis by (simp only: rx_run.simps)
qed

lemma rx_run_Seq_Eps_right: "rx_run (Seq r Eps) s x = rx_run r s x"
proof -
  have "rx_run Eps s = (\<lambda>y. [y])"
    by (rule ext) simp
  then show ?thesis by simp
qed

text \<open>\<open>starts_ci w s\<close>: the string \<open>s\<close> begins with the letters of \<open>w\<close>, up to case.\<close>

fun starts_ci :: "string \<Rightarrow> string \<Rightarrow> bool" where
  "starts_ci [] s = True"
| "starts_ci (a # w) [] = False"
| "starts_ci (a # w) (c # s) = (ci a c \<and> starts_ci w s)"

lemma rx_run_Seq_LitI:
  "rx_run (Seq (LitI w) r) s (i, c) =
     (if starts_ci w (drop i s) then rx_run r s (i + length w, c) else [])"
proof (induction w arbitrary: i)
  case Nil
  show ?case by (simp add: LitI_Nil)
next
  case (Cons a w)
  have unroll: "rx_run (Seq (LitI (a # w)) r) s (i, c) =
        (if i < length s \<and> ci a (s ! i) then rx_run (Seq (LitI w) r) s (Suc i, c) else [])"
    unfolding LitI_Cons rx_run_Seq_assoc by (simp only: rx_run_Seq_Sym fst_conv snd_conv)
  show ?case
  proof (cases "i < length s")
    case True
    then have "drop i s = s ! i # drop (Suc i) s"
      by (simp add: Cons_nth_drop_Suc)
    with True show ?thesis
      unfolding unroll by (simp del: rx_run.simps add: Cons.IH)
  next
    case False
    then show ?thesis unfolding unroll by simp
  qed
qed

text \<open>A pattern that begins with \<open>^\<close> matches at position 0 or nowhere.\<close>

lemma rx_search_Bol_later: "0 < i \<Longrightarrow> rx_search (Seq Bol r) s k i = None"
  by (induction k arbitrary: i) simp_all

lemma rx_exec_Bol:
  "rx_exec (Seq Bol r) s =
     (case rx_run r s (0, []) of [] \<Rightarrow> None | y # _ \<Rightarrow> Some (0, fst y, snd y))"
  by (simp add: rx_exec_def rx_search_Bol_later split: list.splits)

lemma rx_match_Bol_nonempty: "rx_match (Seq Bol r) s = Some c \<Longrightarrow> rx_run r s (0, []) \<noteq> []"
  by (auto simp: rx_match_def rx_exec_Bol split: list.splits)

lemma rx_match_LitI_starts:
  assumes "rx_match (Seqs (Bol # LitI w # rs)) s = Some c"
  shows "starts_ci w s"
proof -
  from assms have "rx_run (Seq (LitI w) (Seqs rs)) s (0, []) \<noteq> []"
    unfolding Seqs_Cons by (rule rx_match_Bol_nonempty)
  then show ?thesis
    by (simp add: rx_run_Seq_LitI del: rx_run.simps split: if_splits)
qed

lemma rx_run_Grp_Alt_LitI:
  assumes "rx_run (Seq (Grp n (Alt (LitI u) (LitI v))) r) s (i, c) \<noteq> []"
  shows "(starts_ci u (drop i s) \<and> rx_run r s (i + length u, (n, take (length u) (drop i s)) # c) \<noteq> [])
       \<or> (starts_ci v (drop i s) \<and> rx_run r s (i + length v, (n, take (length v) (drop i s)) # c) \<noteq> [])"
proof -
  have lit: "rx_run (LitI w) s (i, c) = (if starts_ci w (drop i s) then [(i + length w, c)] else [])" for w
    using rx_run_Seq_LitI [of w Eps s i c] by (simp only: rx_run_Seq_Eps_right rx_run.simps(2))
  show ?thesis
    using assms by (auto simp: lit split: if_splits)
qed

lemma starts_ci_nth:
  "starts_ci w s \<Longrightarrow> k < length w \<Longrightarrow> k < length s \<and> ci (w ! k) (s ! k)"
proof (induction w s arbitrary: k rule: starts_ci.induct)
  case (3 a w c s)
  then show ?case by (cases k) simp_all
qed simp_all

lemma heads_clash:
  assumes "starts_ci u s" and "starts_ci v s" and "k < length u" and "k < length v"
  shows "to_upper (u ! k) = to_upper (v ! k)"
  using starts_ci_nth [OF assms(1,3)] starts_ci_nth [OF assms(2,4)] by (simp add: ci_def)

lemma rx_run_sp1:
  assumes "rx_run (Seq sp1 r) s x \<noteq> []"
  shows "fst x < length s \<and> is_space (s ! fst x)"
proof -
  have "rx_run (Seq sp1 r) s x = rx_run (Seq (Sym is_space) (Seq (Star (Sym is_space)) r)) s x"
    unfolding sp1_def Plus_def by (rule rx_run_Seq_assoc)
  with assms show ?thesis
    by (simp only: rx_run_Seq_Sym split: if_splits) simp_all
qed

lemmas letter_simps = ci_def to_upper_def is_lower_def is_upper_def code_of_def

lemma space_not_letter_i: "is_space c \<Longrightarrow> ci CHR ''i'' c \<Longrightarrow> False"
  by (auto simp: letter_simps is_space_def split: if_splits)

subsection \<open>Which pattern a line matches first\<close>

lemma match_li_starts: "rx_match re_li s = Some c \<Longrightarrow> starts_ci ''li'' s"
  unfolding re_li_def by (rule rx_match_LitI_starts)

lemma match_la_starts: "rx_match re_la s = Some c \<Longrightarrow> starts_ci ''la'' s"
  unfolding re_la_def by (rule rx_match_LitI_starts)

lemma match_move_starts: "rx_match re_move s = Some c \<Longrightarrow> starts_ci ''move'' s"
  unfolding re_move_def by (rule rx_match_LitI_starts)

lemma match_addi_starts: "rx_match re_addi s = Some c \<Longrightarrow> starts_ci ''addi'' s"
  unfolding re_addi_def by (rule rx_match_LitI_starts)

lemma match_lw_starts: "rx_match re_lw s = Some c \<Longrightarrow> starts_ci ''lw'' s"
  unfolding re_lw_def by (rule rx_match_LitI_starts)

lemma match_sw_starts: "rx_match re_sw s = Some c \<Longrightarrow> starts_ci ''sw'' s"
  unfolding re_sw_def by (rule rx_match_LitI_starts)

lemma match_arithmetic_starts:
  assumes "rx_match re_arithmetic s = Some c"
  shows "(starts_ci ''add'' s \<or> starts_ci ''sub'' s) \<and> 3 < length s \<and> is_space (s ! 3)"
proof -
  let ?R = "Seq sp1 (Seqs [Grp 2 re_reg, comma, Grp 3 re_reg, comma, Grp 4 re_reg, Eol])"
  from assms have "rx_run (Seq (Grp 1 (Alt (LitI ''add'') (LitI ''sub''))) ?R) s (0, []) \<noteq> []"
    unfolding re_arithmetic_def Seqs_Cons by (rule rx_match_Bol_nonempty)
  from rx_run_Grp_Alt_LitI [OF this] show ?thesis
    by (auto dest!: rx_run_sp1 simp del: rx_run.simps simp add: numeral_3_eq_3)
qed

lemma la_first:
  assumes "rx_match re_la inst = Some c"
  shows "rx_match re_li inst = None"
proof (cases "rx_match re_li inst")
  case (Some d)
  from heads_clash [OF match_la_starts [OF assms] match_li_starts [OF Some], of 1]
  show ?thesis by (simp add: letter_simps)
qed simp

lemma move_first:
  assumes "rx_match re_move inst = Some c"
  shows "rx_match re_li inst = None" and "rx_match re_la inst = None"
proof -
  note h = match_move_starts [OF assms]
  show "rx_match re_li inst = None"
  proof (cases "rx_match re_li inst")
    case (Some d)
    from heads_clash [OF h match_li_starts [OF Some], of 0] show ?thesis by (simp add: letter_simps)
  qed simp
  show "rx_match re_la inst = None"
  proof (cases "rx_match re_la inst")
    case (Some d)
    from heads_clash [OF h match_la_starts [OF Some], of 0] show ?thesis by (simp add: letter_simps)
  qed simp
qed

lemma addi_first:
  assumes "rx_match re_addi inst = Some c"
  shows "rx_match re_li inst = None" and "rx_match re_la inst = None"
    and "rx_match re_move inst = None"
proof -
  note h = match_addi_starts [OF assms]
  show "rx_match re_li inst = None"
  proof (cases "rx_match re_li inst")
    case (Some d)
    from heads_clash [OF h match_li_starts [OF Some], of 0] show ?thesis by (simp add: letter_simps)
  qed simp
  show "rx_match re_la inst = None"
  proof (cases "rx_match re_la inst")
    case (Some d)
    from heads_clash [OF h match_la_starts [OF Some], of 0] show ?thesis by (simp add: letter_simps)
  qed simp
  show "rx_match re_move inst = None"
  proof (cases "rx_match re_move inst")
    case (Some d)
    from heads_clash [OF h match_move_starts [OF Some], of 0] show ?thesis by (simp add: letter_simps)
  qed simp
qed

lemma arithmetic_first:
  assumes "rx_match re_arithmetic inst = Some a"
  shows "rx_match re_li inst = None" and "rx_match re_la inst = None"
    and "rx_match re_move inst = None" and "rx_match re_addi inst = None"
proof -
  note h = match_arithmetic_starts [OF assms]
  show "rx_match re_li inst = None"
    using h by (cases "rx_match re_li inst")
      (auto dest!: match_li_starts dest: heads_clash [where k = 0] simp: letter_simps)
  show "rx_match re_la inst = None"
    using h by (cases "rx_match re_la inst")
      (auto dest!: match_la_starts dest: heads_clash [where k = 0] simp: letter_simps)
  show "rx_match re_move inst = None"
    using h by (cases "rx_match re_move inst")
      (auto dest!: match_move_starts dest: heads_clash [where k = 0] simp: letter_simps)
  show "rx_match re_addi inst = None"
  proof (cases "rx_match re_addi inst")
    case (Some c)
    from starts_ci_nth [OF match_addi_starts [OF Some], of 3] have "ci CHR ''i'' (inst ! 3)"
      by simp
    with h space_not_letter_i show ?thesis by blast
  qed simp
qed

lemma lw_first:
  assumes "rx_match re_lw inst = Some c"
  shows "rx_match re_li inst = None" and "rx_match re_la inst = None"
    and "rx_match re_move inst = None" and "rx_match re_addi inst = None"
    and "rx_match re_arithmetic inst = None"
proof -
  note h = match_lw_starts [OF assms]
  show "rx_match re_li inst = None"
  proof (cases "rx_match re_li inst")
    case (Some d)
    from heads_clash [OF h match_li_starts [OF Some], of 1] show ?thesis by (simp add: letter_simps)
  qed simp
  show "rx_match re_la inst = None"
  proof (cases "rx_match re_la inst")
    case (Some d)
    from heads_clash [OF h match_la_starts [OF Some], of 1] show ?thesis by (simp add: letter_simps)
  qed simp
  show "rx_match re_move inst = None"
  proof (cases "rx_match re_move inst")
    case (Some d)
    from heads_clash [OF h match_move_starts [OF Some], of 0] show ?thesis by (simp add: letter_simps)
  qed simp
  show "rx_match re_addi inst = None"
  proof (cases "rx_match re_addi inst")
    case (Some d)
    from heads_clash [OF h match_addi_starts [OF Some], of 0] show ?thesis by (simp add: letter_simps)
  qed simp
  show "rx_match re_arithmetic inst = None"
    using h by (cases "rx_match re_arithmetic inst")
      (auto dest!: match_arithmetic_starts dest: heads_clash [where k = 0] simp: letter_simps)
qed

lemma sw_first:
  assumes "rx_match re_sw inst = Some c"
  shows "rx_match re_li inst = None" and "rx_match re_la inst = None"
    and "rx_match re_move inst = None" and "rx_match re_addi inst = None"
    and "rx_match re_arithmetic inst = None" and "rx_match re_lw inst = None"
proof -
  note h = match_sw_starts [OF assms]
  show "rx_match re_li inst = None"
  proof (cases "rx_match re_li inst")
    case (Some d)
    from heads_clash [OF h match_li_starts [OF Some], of 0] show ?thesis by (simp add: letter_simps)
  qed simp
  show "rx_match re_la inst = None"
  proof (cases "rx_match re_la inst")
    case (Some d)
    from heads_clash [OF h match_la_starts [OF Some], of 0] show ?thesis by (simp add: letter_simps)
  qed simp
  show "rx_match re_move inst = None"
  proof (cases "rx_match re_move inst")
    case (Some d)
    from heads_clash [OF h match_move_starts [OF Some], of 0] show ?thesis by (simp add: letter_simps)
  qed simp
  show "rx_match re_addi inst = None"
  proof (cases "rx_match re_addi inst")
    case (Some d)
    from heads_clash [OF h match_addi_starts [OF Some], of 0] show ?thesis by (simp add: letter_simps)
  qed simp
  show "rx_match re_arithmetic inst = None"
    using h by (cases "rx_match re_arithmetic inst")
      (auto dest!: match_arithmetic_starts dest: heads_clash [where k = 1] simp: letter_simps)
  show "rx_match re_lw inst = None"
  proof (cases "rx_match re_lw inst")
    case (Some d)
    from heads_clash [OF h match_lw_starts [OF Some], of 0] show ?thesis by (simp add: letter_simps)
  qed simp
qed

text \<open>So a line that matches one of these patterns is executed by that pattern's branch.\<close>

lemma exec_instruction_li:
  "rx_match re_li inst = Some c \<Longrightarrow> exec_instruction m inst = exec_li m c"
  by (simp add: exec_instruction_def)

lemma exec_instruction_la:
  "rx_match re_la inst = Some c \<Longrightarrow> exec_instruction m inst = exec_la m c"
  by (simp add: exec_instruction_def la_first)

lemma exec_instruction_move:
  "rx_match re_move inst = Some c \<Longrightarrow> exec_instruction m inst = exec_move m c"
  by (simp add: exec_instruction_def move_first)

lemma exec_instruction_addi:
  "rx_match re_addi inst = Some c \<Longrightarrow> exec_instruction m inst = exec_addi m c"
  by (simp add: exec_instruction_def addi_first)

lemma exec_instruction_arithmetic:
  "rx_match re_arithmetic inst = Some c \<Longrightarrow> exec_instruction m inst = exec_arithmetic m c"
  by (simp add: exec_instruction_def arithmetic_first)

lemma exec_instruction_lw:
  "rx_match re_lw inst = Some c \<Longrightarrow> exec_instruction m inst = exec_lw m c"
  by (simp add: exec_instruction_def lw_first)

lemma exec_instruction_sw:
  "rx_match re_sw inst = Some c \<Longrightarrow> exec_instruction m inst = exec_sw m c"
  by (simp add: exec_instruction_def sw_first)

section \<open>Facts about 32-bit truncation\<close>

text \<open>
  \<open>int32\<close> is the range of a 32-bit two's-complement integer, and \<open>word_state\<close>
  says that every register and every memory word of a state lies in it.
\<close>

definition int32 :: "int \<Rightarrow> bool" where
  "int32 v = (- 2147483648 \<le> v \<and> v \<le> 2147483647)"

definition word_state :: "MipsMachineState \<Rightarrow> bool" where
  "word_state m =
     ((\<forall>name v. registers m name = Some v \<longrightarrow> int32 v) \<and>
      (\<forall>key v. memory m key = Some v \<longrightarrow> int32 v))"

lemma mod_shift_up: "- n \<le> x \<Longrightarrow> x < 0 \<Longrightarrow> x mod n = x + n" for x n :: int
proof -
  assume a: "- n \<le> x" "x < 0"
  have "x mod n = (x + n) mod n"
    by simp
  also from a have "\<dots> = x + n"
    by (intro mod_pos_pos_trivial) simp_all
  finally show ?thesis .
qed

lemma mod_shift_down: "n \<le> x \<Longrightarrow> x < 2 * n \<Longrightarrow> x mod n = x - n" for x n :: int
proof -
  assume a: "n \<le> x" "x < 2 * n"
  have "x mod n = (x - n) mod n"
    by simp
  also from a have "\<dots> = x - n"
    by (intro mod_pos_pos_trivial) simp_all
  finally show ?thesis .
qed

lemma toInt32_cases:
  obtains k where "0 \<le> k" and "k < 4294967296" and "k = x mod 4294967296"
    and "toInt32 x = (if 2147483648 \<le> k then k - 4294967296 else k)"
proof -
  have "0 \<le> x mod 4294967296" and "x mod 4294967296 < 4294967296"
    by simp_all
  moreover have "toInt32 x =
      (if 2147483648 \<le> x mod 4294967296 then x mod 4294967296 - 4294967296 else x mod 4294967296)"
    by (simp add: toInt32_def Let_def)
  ultimately show thesis
    by (rule that [OF _ _ refl])
qed

lemma int32_toInt32: "int32 (toInt32 x)"
proof -
  obtain k where "0 \<le> k" and "k < 4294967296"
    and "toInt32 x = (if 2147483648 \<le> k then k - 4294967296 else k)"
    by (rule toInt32_cases)
  then show ?thesis
    by (auto simp: int32_def)
qed

lemma toInt32_id:
  assumes "int32 x"
  shows "toInt32 x = x"
proof (cases "0 \<le> x")
  case True
  with assms have "x mod 4294967296 = x"
    by (intro mod_pos_pos_trivial) (simp_all add: int32_def)
  with assms True show ?thesis
    by (simp add: toInt32_def Let_def int32_def)
next
  case False
  with assms have "x mod 4294967296 = x + 4294967296"
    by (intro mod_shift_up) (simp_all add: int32_def)
  with assms False show ?thesis
    by (simp add: toInt32_def Let_def int32_def)
qed

lemma toInt32_sint: "toInt32 x = sint (word_of_int x :: 32 word)"
proof -
  obtain k where k: "0 \<le> k" "k < 4294967296" "k = x mod 4294967296"
    and t: "toInt32 x = (if 2147483648 \<le> k then k - 4294967296 else k)"
    by (rule toInt32_cases)
  have "sint (word_of_int x :: 32 word) = signed_take_bit 31 x"
    by (simp add: sint_sbintrunc')
  also have "\<dots> = take_bit 32 (x + 2 ^ 31) - 2 ^ 31"
    by (simp add: signed_take_bit_eq_take_bit_shift)
  also have "\<dots> = (x + 2147483648) mod 4294967296 - 2147483648"
    by (simp add: take_bit_eq_mod)
  also have "(x + 2147483648) mod 4294967296 = (k + 2147483648) mod 4294967296"
    unfolding k(3) by (simp add: mod_add_left_eq)
  also have "\<dots> = (if 2147483648 \<le> k then k - 2147483648 else k + 2147483648)"
  proof (cases "2147483648 \<le> k")
    case True
    with k have "(k + 2147483648) mod 4294967296 = k + 2147483648 - 4294967296"
      by (intro mod_shift_down) simp_all
    with True show ?thesis by simp
  next
    case False
    with k have "(k + 2147483648) mod 4294967296 = k + 2147483648"
      by (intro mod_pos_pos_trivial) simp_all
    with False show ?thesis by simp
  qed
  finally show ?thesis
    unfolding t by simp
qed

lemma toInt32_idem: "toInt32 (toInt32 x) = toInt32 x"
  by (rule toInt32_id) (rule int32_toInt32)

section \<open>What the branches of a step leave unchanged\<close>

lemmas upd_defs = writeMipsRegister_def reset_zero_def next_pc_def fail_def touch_memory_def
  appendMipsOutput_def syscall_done_def

lemmas exec_defs = exec_li_def exec_la_def exec_move_def exec_addi_def exec_arithmetic_def
  exec_lw_def exec_sw_def exec_branch_def exec_jump_def exec_syscall_def

lemma steps_exec:
  "steps (exec_li m c) = steps m"
  "steps (exec_la m c) = steps m"
  "steps (exec_move m c) = steps m"
  "steps (exec_addi m c) = steps m"
  "steps (exec_arithmetic m c) = steps m"
  "steps (exec_lw m c) = steps m"
  "steps (exec_sw m c) = steps m"
  "steps (exec_branch m c) = steps m"
  "steps (exec_jump m c) = steps m"
  "steps (exec_syscall m) = steps m"
  by (simp_all add: exec_defs upd_defs Let_def split: option.splits)

lemma steps_exec_instruction: "steps (exec_instruction m inst) = steps m"
  unfolding exec_instruction_def by (simp add: steps_exec fail_def split: option.splits)

lemma program_exec:
  "program (exec_li m c) = program m"
  "program (exec_la m c) = program m"
  "program (exec_move m c) = program m"
  "program (exec_addi m c) = program m"
  "program (exec_arithmetic m c) = program m"
  "program (exec_lw m c) = program m"
  "program (exec_sw m c) = program m"
  "program (exec_branch m c) = program m"
  "program (exec_jump m c) = program m"
  "program (exec_syscall m) = program m"
  by (simp_all add: exec_defs upd_defs Let_def split: option.splits)

lemma program_exec_instruction: "program (exec_instruction m inst) = program m"
  unfolding exec_instruction_def by (simp add: program_exec fail_def split: option.splits)

lemma zero_exec:
  assumes "registers m ''$zero'' = Some 0"
  shows "registers (exec_li m c) ''$zero'' = Some 0"
  "registers (exec_la m c) ''$zero'' = Some 0"
  "registers (exec_move m c) ''$zero'' = Some 0"
  "registers (exec_addi m c) ''$zero'' = Some 0"
  "registers (exec_arithmetic m c) ''$zero'' = Some 0"
  "registers (exec_lw m c) ''$zero'' = Some 0"
  "registers (exec_sw m c) ''$zero'' = Some 0"
  "registers (exec_branch m c) ''$zero'' = Some 0"
  "registers (exec_jump m c) ''$zero'' = Some 0"
  "registers (exec_syscall m) ''$zero'' = Some 0"
  using assms by (simp_all add: exec_defs upd_defs Let_def split: option.splits)

lemma zero_exec_instruction:
  "registers m ''$zero'' = Some 0 \<Longrightarrow> registers (exec_instruction m inst) ''$zero'' = Some 0"
  unfolding exec_instruction_def by (simp add: zero_exec fail_def split: option.splits)

lemma word_exec:
  assumes "word_state m"
  shows "word_state (exec_li m c)"
  "word_state (exec_la m c)"
  "word_state (exec_move m c)"
  "word_state (exec_addi m c)"
  "word_state (exec_arithmetic m c)"
  "word_state (exec_lw m c)"
  "word_state (exec_sw m c)"
  "word_state (exec_branch m c)"
  "word_state (exec_jump m c)"
  "word_state (exec_syscall m)"
  using assms int32_toInt32 
  by (simp_all add: word_state_def exec_defs upd_defs Let_def int32_def [of 0] split: option.splits)

lemma word_exec_instruction: "word_state m \<Longrightarrow> word_state (exec_instruction m inst)"
  unfolding exec_instruction_def
  by (simp add: word_exec split: option.splits) (simp add: fail_def word_state_def)

section \<open>Execution driver\<close>

text \<open>
  A step of a ready machine either leaves the ready status or counts one more step,
  which is only possible below the bound. This is what makes the driver's loop end.
\<close>

lemma stepMipsMachine_progress:
  assumes "status m = Ready"
  shows "status (stepMipsMachine m) \<noteq> Ready \<or>
         (steps m < MIPS_MAX_STEPS \<and> steps (stepMipsMachine m) = steps m + 1)"
proof (cases "pc m < 0 \<or> pc m \<ge> int (length (instructions (program m)))")
  case True
  with assms show ?thesis by (simp add: stepMipsMachine_def)
next
  case False
  with assms show ?thesis
    by (cases "steps m \<ge> MIPS_MAX_STEPS") (simp_all add: stepMipsMachine_def steps_exec_instruction)
qed

function runMipsMachineToEnd :: "MipsMachineState \<Rightarrow> MipsMachineState" where
  "runMipsMachineToEnd machine =
     (if status machine = Ready then runMipsMachineToEnd (stepMipsMachine machine) else machine)"
  by pat_completeness auto
termination
proof (relation "measure (\<lambda>m. if status m = Ready then Suc (nat (MIPS_MAX_STEPS - steps m)) else 0)")
  show "wf (measure (\<lambda>m. if status m = Ready then Suc (nat (MIPS_MAX_STEPS - steps m)) else 0))"
    by simp
next
  fix machine :: MipsMachineState
  assume ready: "status machine = Ready"
  from stepMipsMachine_progress [OF ready]
  consider (stopped) "status (stepMipsMachine machine) \<noteq> Ready"
    | (counted) "steps machine < MIPS_MAX_STEPS" "steps (stepMipsMachine machine) = steps machine + 1"
    by blast
  then have "(if status (stepMipsMachine machine) = Ready
              then Suc (nat (MIPS_MAX_STEPS - steps (stepMipsMachine machine))) else 0)
             < Suc (nat (MIPS_MAX_STEPS - steps machine))"
  proof cases
    case stopped
    then show ?thesis by simp
  next
    case counted
    then have "nat (MIPS_MAX_STEPS - (steps machine + 1)) < nat (MIPS_MAX_STEPS - steps machine)"
      by linarith
    with counted show ?thesis by simp
  qed
  with ready show "(stepMipsMachine machine, machine)
          \<in> measure (\<lambda>m. if status m = Ready then Suc (nat (MIPS_MAX_STEPS - steps m)) else 0)"
    by simp
qed

declare runMipsMachineToEnd.simps [simp del]

lemma run_ready: "status m = Ready \<Longrightarrow> runMipsMachineToEnd m = runMipsMachineToEnd (stepMipsMachine m)"
  by (subst runMipsMachineToEnd.simps) simp

lemma run_done: "status m \<noteq> Ready \<Longrightarrow> runMipsMachineToEnd m = m"
  by (subst runMipsMachineToEnd.simps) simp

section \<open>Invariants of a step\<close>

lemma stepMipsMachine_cases [case_names idle halt timeout exec]:
  obtains
    (idle) "status m \<noteq> Ready" "stepMipsMachine m = m"
  | (halt) "status m = Ready" "pc m < 0 \<or> pc m \<ge> int (length (instructions (program m)))"
      "stepMipsMachine m = m\<lparr>status := Halted\<rparr>"
  | (timeout) "status m = Ready" "0 \<le> pc m" "pc m < int (length (instructions (program m)))"
      "steps m \<ge> MIPS_MAX_STEPS"
      "stepMipsMachine m = m\<lparr>status := Error, error := ''MIPS execution timed out.''\<rparr>"
  | (exec) "status m = Ready" "0 \<le> pc m" "pc m < int (length (instructions (program m)))"
      "steps m < MIPS_MAX_STEPS"
      "stepMipsMachine m =
         exec_instruction (m\<lparr>steps := steps m + 1\<rparr>) (instructions (program m) ! nat (pc m))"
proof (cases "status m = Ready")
  case False
  then show thesis by (intro idle) (simp_all add: stepMipsMachine_def)
next
  case ready: True
  show thesis
  proof (cases "pc m < 0 \<or> pc m \<ge> int (length (instructions (program m)))")
    case True
    with ready show thesis by (intro halt) (simp_all add: stepMipsMachine_def)
  next
    case inside: False
    show thesis
    proof (cases "steps m \<ge> MIPS_MAX_STEPS")
      case True
      with ready inside show thesis by (intro timeout) (simp_all add: stepMipsMachine_def)
    next
      case False
      with ready inside show thesis by (intro exec) (simp_all add: stepMipsMachine_def)
    qed
  qed
qed

lemma zero_step:
  assumes "registers m ''$zero'' = Some 0"
  shows "registers (stepMipsMachine m) ''$zero'' = Some 0"
proof (cases m rule: stepMipsMachine_cases)
  case exec
  from assms have "registers (m\<lparr>steps := steps m + 1\<rparr>) ''$zero'' = Some 0"
    by simp
  then show ?thesis
    unfolding exec(5) by (rule zero_exec_instruction)
qed (simp_all add: assms)

lemma word_step:
  assumes "word_state m"
  shows "word_state (stepMipsMachine m)"
proof (cases m rule: stepMipsMachine_cases)
  case exec
  from assms have "word_state (m\<lparr>steps := steps m + 1\<rparr>)"
    by (simp add: word_state_def)
  then show ?thesis
    unfolding exec(5) by (rule word_exec_instruction)
qed (use assms in \<open>simp_all add: word_state_def\<close>)

lemma steps_step:
  "steps (stepMipsMachine m) =
     (if status m = Ready \<and> 0 \<le> pc m \<and> pc m < int (length (instructions (program m)))
         \<and> steps m < MIPS_MAX_STEPS
      then steps m + 1 else steps m)"
  by (cases m rule: stepMipsMachine_cases) (auto simp: steps_exec_instruction)

lemma program_step: "program (stepMipsMachine m) = program m"
  by (cases m rule: stepMipsMachine_cases) (simp_all add: program_exec_instruction)

subsection \<open>The initial state\<close>

lemma map_of_const: "map_of (map (\<lambda>r. (r, v)) xs) name = (if name \<in> set xs then Some v else None)"
  by (induction xs) simp_all

lemma zero_registers_apply:
  "zero_registers name = (if name \<in> MIPS_REGISTER_SET then Some 0 else None)"
  by (simp add: zero_registers_def MIPS_REGISTER_SET_def map_of_const)

lemma zero_in_set: "''$zero'' \<in> MIPS_REGISTER_SET"
  by (simp add: MIPS_REGISTER_SET_def MIPS_REGISTERS_def)

lemma foldl_init_register_int32:
  "(\<And>name v. regs name = Some v \<Longrightarrow> int32 v) \<Longrightarrow>
   foldl init_register regs es name = Some v \<Longrightarrow> int32 v"
proof (induction es arbitrary: regs)
  case Nil
  then show ?case by simp
next
  case (Cons e es)
  show ?case
  proof (rule Cons.IH)
    fix name' v'
    assume "init_register regs e name' = Some v'"
    then show "int32 v'"
      using Cons.prems(1) int32_toInt32 by (auto simp: init_register_def split: if_splits)
  next
    from Cons.prems(2) show "foldl init_register (init_register regs e) es name = Some v"
      by simp
  qed
qed

lemma foldl_init_memory_int32:
  "(\<And>key v. mem key = Some v \<Longrightarrow> int32 v) \<Longrightarrow>
   foldl init_memory mem es key = Some v \<Longrightarrow> int32 v"
proof (induction es arbitrary: mem)
  case Nil
  then show ?case by simp
next
  case (Cons e es)
  show ?case
  proof (rule Cons.IH)
    fix key' v'
    assume "init_memory mem e key' = Some v'"
    then show "int32 v'"
      using Cons.prems(1) int32_toInt32
      by (auto simp: init_memory_def split: if_splits option.splits)
  next
    from Cons.prems(2) show "foldl init_memory (init_memory mem e) es key = Some v"
      by simp
  qed
qed

lemma zero_init: "registers (initializeMipsMachine src rs ms) ''$zero'' = Some 0"
  by (simp add: initializeMipsMachine_def zero_registers_apply zero_in_set split: sum.splits)

lemma word_init: "word_state (initializeMipsMachine src rs ms)"
proof (cases "parseMipsProgram src")
  case (Inl err)
  then show ?thesis
    by (simp add: initializeMipsMachine_def word_state_def zero_registers_apply int32_def)
next
  case (Inr prog)
  have "int32 v" if "foldl init_register zero_registers rs name = Some v" for name v
    using _ that by (rule foldl_init_register_int32) (simp add: zero_registers_apply int32_def split: if_splits)
  moreover have "int32 v" if "foldl init_memory Map.empty ms key = Some v" for key v
    using _ that by (rule foldl_init_memory_int32) simp
  ultimately show ?thesis
    using Inr by (auto simp: initializeMipsMachine_def word_state_def int32_def [of 0])
qed

lemma zero_reachable:
  "registers ((stepMipsMachine ^^ n) (initializeMipsMachine src rs ms)) ''$zero'' = Some 0"
  by (induction n) (simp_all add: zero_init zero_step)

lemma word_reachable: "word_state ((stepMipsMachine ^^ n) (initializeMipsMachine src rs ms))"
  by (induction n) (simp_all add: word_init word_step)

section \<open>Facts about the loader\<close>

text \<open>
  A cleaned line that is neither a directive nor carries a label. Inside the text
  segment such a line is appended to the instructions as it is.
\<close>

definition plain_line :: "string \<Rightarrow> bool" where
  "plain_line l =
     (l \<noteq> ''.text'' \<and> l \<noteq> ''.data'' \<and> \<not> rx_test re_globl l \<and> rx_match re_inlineLabel l = None)"

lemma parse_line_plain:
  "inText st \<Longrightarrow> plain_line l \<Longrightarrow> parse_line st l = st\<lparr>instructions := instructions st @ [l]\<rparr>"
  by (simp add: parse_line_def plain_line_def)

lemma foldl_parse_plain:
  "inText st \<Longrightarrow> list_all plain_line ls \<Longrightarrow>
   foldl parse_line st ls = st\<lparr>instructions := instructions st @ ls\<rparr>"
proof (induction ls arbitrary: st)
  case Nil
  then show ?case by simp
next
  case (Cons l ls)
  then show ?case by (simp add: parse_line_plain)
qed

lemma parse_text_only:
  assumes "rawLines_of src = ''.text'' # ls" and "ls \<noteq> []" and "list_all plain_line ls"
  shows "parseMipsProgram src =
           Inr \<lparr>instructions = ls, labels = Map.empty, dataByAddress = Map.empty,
                dataAddresses = Map.empty\<rparr>"
proof -
  have "parse_line loader_init ''.text'' = loader_init\<lparr>inText := True\<rparr>"
    by (simp add: parse_line_def)
  moreover have "foldl parse_line (loader_init\<lparr>inText := True\<rparr>) ls =
      loader_init\<lparr>inText := True, instructions := ls\<rparr>"
    using foldl_parse_plain [OF _ assms(3), of "loader_init\<lparr>inText := True\<rparr>"]
    by (simp add: loader_init_def)
  ultimately have "foldl parse_line loader_init (''.text'' # ls) =
      loader_init\<lparr>inText := True, instructions := ls\<rparr>"
    by simp
  with assms(1,2) show ?thesis
    by (simp add: parseMipsProgram_def loader_init_def)
qed

text \<open>
  Outside the text segment no line but \<open>.text\<close> itself changes the segment or the
  instructions: a source without a \<open>.text\<close> line yields no program.
\<close>

lemma parse_data_line_keeps:
  "instructions (parse_data_line st lab line) = instructions st"
  "inText (parse_data_line st lab line) = inText st"
  by (simp_all add: parse_data_line_def Let_def split: option.splits)

lemma parse_line_outside_text:
  assumes "\<not> inText st" and "l \<noteq> ''.text''"
  shows "instructions (parse_line st l) = instructions st \<and> \<not> inText (parse_line st l)"
proof (cases "rx_match re_inlineLabel l")
  case None
  with assms show ?thesis
    by (simp add: parse_line_def parse_data_line_keeps)
next
  case (Some c)
  with assms show ?thesis
    by (simp add: parse_line_def parse_data_line_keeps Let_def)
qed

lemma foldl_parse_outside_text:
  "\<not> inText st \<Longrightarrow> ''.text'' \<notin> set ls \<Longrightarrow> instructions (foldl parse_line st ls) = instructions st"
proof (induction ls arbitrary: st)
  case Nil
  then show ?case by simp
next
  case (Cons l ls)
  from Cons.prems have l: "l \<noteq> ''.text''" and ls: "''.text'' \<notin> set ls"
    by auto
  from parse_line_outside_text [OF Cons.prems(1) l]
  have "instructions (parse_line st l) = instructions st" and "\<not> inText (parse_line st l)"
    by simp_all
  with Cons.IH [OF _ ls, of "parse_line st l"] show ?case
    by simp
qed

lemma no_text_no_program:
  assumes "''.text'' \<notin> set (rawLines_of src)"
  shows "parseMipsProgram src = Inl ''No MIPS instructions found in .text section.''"
proof -
  have "instructions (foldl parse_line loader_init (rawLines_of src)) = []"
    using foldl_parse_outside_text [OF _ assms, of loader_init] by (simp add: loader_init_def)
  then show ?thesis
    by (simp add: parseMipsProgram_def)
qed

section \<open>Stepping through concrete instructions\<close>

lemma step_exec:
  assumes "status m = Ready" and "0 \<le> pc m" and "pc m < int (length (instructions (program m)))"
    and "steps m < MIPS_MAX_STEPS"
  shows "stepMipsMachine m =
           exec_instruction (m\<lparr>steps := steps m + 1\<rparr>) (instructions (program m) ! nat (pc m))"
  using assms by (simp add: stepMipsMachine_def)

lemma step_halt:
  assumes "status m = Ready" and "pc m \<ge> int (length (instructions (program m)))"
  shows "stepMipsMachine m = m\<lparr>status := Halted\<rparr>"
  using assms by (simp add: stepMipsMachine_def)

lemma exec_li_value:
  assumes "rx_match re_li inst = Some c" and "parseMipsNumber (grp c 2) = Some v"
  shows "exec_instruction m inst = reset_zero (next_pc (writeMipsRegister m (grp c 1) v))"
  using assms by (simp add: exec_instruction_li exec_li_def)

lemma exec_arithmetic_value:
  assumes "rx_match re_arithmetic inst = Some c"
  shows "exec_instruction m inst =
           reset_zero (next_pc (writeMipsRegister m (grp c 2)
             (toInt32 (if map to_lower (grp c 1) = ''add''
                       then readMipsRegister m (grp c 3) + readMipsRegister m (grp c 4)
                       else readMipsRegister m (grp c 3) - readMipsRegister m (grp c 4)))))"
  using assms by (simp add: exec_instruction_arithmetic exec_arithmetic_def Let_def)

definition scenario_B :: string where
  "scenario_B = ''li $t0,5'' @ [CHR 0x0A] @ ''li $t1,7'' @ [CHR 0x0A] @ ''add $t2,$t0,$t1'' @ [CHR 0x0A]"

definition scenario_B_text :: string where
  "scenario_B_text = ''.text'' @ [CHR 0x0A] @ scenario_B"

definition program_B :: MipsProgram where
  "program_B = \<lparr>instructions = [''li $t0,5'', ''li $t1,7'', ''add $t2,$t0,$t1''], labels = Map.empty,
                 dataByAddress = Map.empty, dataAddresses = Map.empty\<rparr>"

lemma parse_scenario_B_text: "parseMipsProgram scenario_B_text = Inr program_B"
proof -
  have "rawLines_of scenario_B_text = [''.text'', ''li $t0,5'', ''li $t1,7'', ''add $t2,$t0,$t1'']"
    by code_simp
  moreover have "list_all plain_line [''li $t0,5'', ''li $t1,7'', ''add $t2,$t0,$t1'']"
    by code_simp
  ultimately show ?thesis
    unfolding program_B_def by (intro parse_text_only) simp_all
qed

lemma exec_li_t0_5:
  "exec_instruction m ''li $t0,5'' = reset_zero (next_pc (writeMipsRegister m ''$t0'' 5))"
proof -
  have "rx_match re_li ''li $t0,5'' = Some [(2, ''5''), (1, ''$t0'')]"
    by code_simp
  moreover have "parseMipsNumber ''5'' = Some 5"
    by code_simp
  ultimately show ?thesis
    using exec_li_value [of "''li $t0,5''" "[(2, ''5''), (1, ''$t0'')]" 5 m] by (simp add: grp_def)
qed

lemma exec_li_t1_7:
  "exec_instruction m ''li $t1,7'' = reset_zero (next_pc (writeMipsRegister m ''$t1'' 7))"
proof -
  have "rx_match re_li ''li $t1,7'' = Some [(2, ''7''), (1, ''$t1'')]"
    by code_simp
  moreover have "parseMipsNumber ''7'' = Some 7"
    by code_simp
  ultimately show ?thesis
    using exec_li_value [of "''li $t1,7''" "[(2, ''7''), (1, ''$t1'')]" 7 m] by (simp add: grp_def)
qed

lemma exec_add_t2_t0_t1:
  "exec_instruction m ''add $t2,$t0,$t1'' =
     reset_zero (next_pc (writeMipsRegister m ''$t2''
       (toInt32 (readMipsRegister m ''$t0'' + readMipsRegister m ''$t1''))))"
proof -
  have "rx_match re_arithmetic ''add $t2,$t0,$t1'' =
          Some [(4, ''$t1''), (3, ''$t0''), (2, ''$t2''), (1, ''add'')]"
    by code_simp
  moreover have "map to_lower ''add'' = ''add''"
    by code_simp
  ultimately show ?thesis
    using exec_arithmetic_value [of "''add $t2,$t0,$t1''" _ m] by (simp add: grp_def)
qed

lemmas reg_names = MIPS_REGISTER_SET_def MIPS_REGISTERS_def

lemma scenario_B_steps:
  assumes prog: "program m = program_B"
    and ready: "status m = Ready" and pc0: "pc m = 0" and fuel: "steps m + 3 \<le> MIPS_MAX_STEPS"
  defines "m3 \<equiv> stepMipsMachine (stepMipsMachine (stepMipsMachine m))"
  shows "status m3 = Ready" and "pc m3 = 3" and "steps m3 = steps m + 3"
    and "registers m3 ''$t2'' = Some 12" and "program m3 = program_B"
    and "status (stepMipsMachine m) = Ready"
    and "status (stepMipsMachine (stepMipsMachine m)) = Ready"
proof -
  let ?m1 = "stepMipsMachine m"
  let ?m2 = "stepMipsMachine ?m1"
  have e1: "?m1 = reset_zero (next_pc (writeMipsRegister (m\<lparr>steps := steps m + 1\<rparr>) ''$t0'' 5))"
    using assms by (simp add: step_exec program_B_def exec_li_t0_5)
  have f1: "status ?m1 = Ready" "pc ?m1 = 1" "steps ?m1 = steps m + 1" "program ?m1 = program_B"
      "readMipsRegister ?m1 ''$t0'' = 5"
    unfolding e1 using assms by (simp_all add: upd_defs readMipsRegister_def reg_names toInt32_def)
  have e2: "?m2 = reset_zero (next_pc (writeMipsRegister (?m1\<lparr>steps := steps ?m1 + 1\<rparr>) ''$t1'' 7))"
    using f1 fuel by (simp add: step_exec program_B_def exec_li_t1_7)
  have f2: "status ?m2 = Ready" "pc ?m2 = 2" "steps ?m2 = steps m + 2" "program ?m2 = program_B"
      "readMipsRegister ?m2 ''$t0'' = 5" "readMipsRegister ?m2 ''$t1'' = 7"
    unfolding e2 using f1 by (simp_all add: upd_defs readMipsRegister_def reg_names toInt32_def)
  have e3: "m3 = reset_zero (next_pc (writeMipsRegister (?m2\<lparr>steps := steps ?m2 + 1\<rparr>) ''$t2''
      (toInt32 (readMipsRegister (?m2\<lparr>steps := steps ?m2 + 1\<rparr>) ''$t0''
        + readMipsRegister (?m2\<lparr>steps := steps ?m2 + 1\<rparr>) ''$t1''))))"
    unfolding m3_def using f2 fuel by (simp add: step_exec program_B_def exec_add_t2_t0_t1)
  show "status m3 = Ready" "pc m3 = 3" "steps m3 = steps m + 3"
      "registers m3 ''$t2'' = Some 12" "program m3 = program_B"
    unfolding e3 using f2 by (simp_all add: upd_defs readMipsRegister_def reg_names toInt32_def)
  show "status ?m1 = Ready" and "status ?m2 = Ready"
    by (fact f1(1)) (fact f2(1))
qed

subsection \<open>The loop of scenario C\<close>

definition scenario_C :: string where
  "scenario_C = ''loop:'' @ [CHR 0x0A] @ ''beq $zero,$zero,loop'' @ [CHR 0x0A]"

definition scenario_C_text :: string where
  "scenario_C_text = ''.text'' @ [CHR 0x0A] @ scenario_C"

definition program_C :: MipsProgram where
  "program_C = \<lparr>instructions = [''beq $zero,$zero,loop''], labels = [''loop'' \<mapsto> 0],
                 dataByAddress = Map.empty, dataAddresses = Map.empty\<rparr>"

lemma parse_scenario_C_text: "parseMipsProgram scenario_C_text = Inr program_C"
proof -
  have lines: "rawLines_of scenario_C_text = [''.text'', ''loop:'', ''beq $zero,$zero,loop'']"
    by code_simp
  have label: "\<not> rx_test re_globl ''loop:''"
      "rx_match re_inlineLabel ''loop:'' = Some [(2, []), (1, ''loop'')]"
    by code_simp+
  have plain: "plain_line ''beq $zero,$zero,loop''"
    by code_simp
  have "parse_line loader_init ''.text'' = loader_init\<lparr>inText := True\<rparr>"
    by (simp add: parse_line_def)
  moreover have "parse_line (loader_init\<lparr>inText := True\<rparr>) ''loop:'' =
      loader_init\<lparr>inText := True, labels := [''loop'' \<mapsto> 0]\<rparr>"
    using label by (simp add: parse_line_def grp_def trim_def loader_init_def)
  moreover have "parse_line (loader_init\<lparr>inText := True, labels := [''loop'' \<mapsto> 0]\<rparr>)
      ''beq $zero,$zero,loop'' =
      loader_init\<lparr>inText := True, labels := [''loop'' \<mapsto> 0],
        instructions := [''beq $zero,$zero,loop'']\<rparr>"
    using plain by (simp add: parse_line_plain loader_init_def)
  ultimately show ?thesis
    by (simp add: parseMipsProgram_def lines program_C_def loader_init_def)
qed

lemma exec_beq_zero_loop:
  assumes "labels (program m) ''loop'' = Some target"
  shows "exec_instruction m ''beq $zero,$zero,loop'' = reset_zero (m\<lparr>pc := target\<rparr>)"
proof -
  have "map (\<lambda>r. rx_match r ''beq $zero,$zero,loop'')
          [re_li, re_la, re_move, re_addi, re_arithmetic, re_lw, re_sw] =
        [None, None, None, None, None, None, None]"
    by code_simp
  moreover have "rx_match re_branch ''beq $zero,$zero,loop'' =
      Some [(4, ''loop''), (3, ''$zero''), (2, ''$zero''), (1, ''beq'')]"
    by code_simp
  moreover have "map to_lower ''beq'' = ''beq''"
    by code_simp
  ultimately show ?thesis
    using assms by (simp add: exec_instruction_def exec_branch_def grp_def Let_def)
qed

lemma loop_step:
  assumes "program m = program_C" and "status m = Ready" and "pc m = 0"
    and "steps m < MIPS_MAX_STEPS"
  shows "program (stepMipsMachine m) = program_C" and "status (stepMipsMachine m) = Ready"
    and "pc (stepMipsMachine m) = 0" and "steps (stepMipsMachine m) = steps m + 1"
proof -
  have "stepMipsMachine m = reset_zero (m\<lparr>steps := steps m + 1, pc := 0\<rparr>)"
    using assms by (simp add: step_exec program_C_def exec_beq_zero_loop)
  with assms show "program (stepMipsMachine m) = program_C" "status (stepMipsMachine m) = Ready"
    "pc (stepMipsMachine m) = 0" "steps (stepMipsMachine m) = steps m + 1"
    by (simp_all add: reset_zero_def)
qed

lemma loop_iterate:
  assumes "program m = program_C" and "status m = Ready" and "pc m = 0"
    and "steps m + int n \<le> MIPS_MAX_STEPS"
  shows "program ((stepMipsMachine ^^ n) m) = program_C \<and> status ((stepMipsMachine ^^ n) m) = Ready \<and>
         pc ((stepMipsMachine ^^ n) m) = 0 \<and> steps ((stepMipsMachine ^^ n) m) = steps m + int n"
  using assms(4)
proof (induction n)
  case 0
  with assms show ?case by simp
next
  case (Suc n)
  then have "steps m + int n \<le> MIPS_MAX_STEPS" and lt: "steps m + int n < MIPS_MAX_STEPS"
    by simp_all
  from Suc.IH [OF this(1)] loop_step [of "(stepMipsMachine ^^ n) m"] lt
  show ?case by simp
qed

lemma step_timeout:
  assumes "status m = Ready" and "0 \<le> pc m" and "pc m < int (length (instructions (program m)))"
    and "MIPS_MAX_STEPS \<le> steps m"
  shows "stepMipsMachine m = m\<lparr>status := Error, error := ''MIPS execution timed out.''\<rparr>"
  using assms by (simp add: stepMipsMachine_def)

lemma run_iterate:
  assumes "\<And>k. k < n \<Longrightarrow> status ((stepMipsMachine ^^ k) m) = Ready"
  shows "runMipsMachineToEnd m = runMipsMachineToEnd ((stepMipsMachine ^^ n) m)"
  using assms
proof (induction n)
  case 0
  show ?case by simp
next
  case (Suc n)
  then have "runMipsMachineToEnd m = runMipsMachineToEnd ((stepMipsMachine ^^ n) m)"
    by simp
  also have "\<dots> = runMipsMachineToEnd (stepMipsMachine ((stepMipsMachine ^^ n) m))"
    using Suc.prems [of n] by (intro run_ready) simp
  finally show ?case by simp
qed

lemma loop_run:
  assumes "program m = program_C" and "status m = Ready" and "pc m = 0" and "steps m = 0"
  shows "runMipsMachineToEnd m =
     ((stepMipsMachine ^^ 10000) m)\<lparr>status := Error, error := ''MIPS execution timed out.''\<rparr>"
    and "steps ((stepMipsMachine ^^ 10000) m) = 10000"
proof -
  let ?e = "(stepMipsMachine ^^ 10000) m"
  have it: "program ((stepMipsMachine ^^ k) m) = program_C \<and> status ((stepMipsMachine ^^ k) m) = Ready \<and>
         pc ((stepMipsMachine ^^ k) m) = 0 \<and> steps ((stepMipsMachine ^^ k) m) = steps m + int k"
    if "k \<le> 10000" for k
    using that assms by (intro loop_iterate) (simp_all add: MIPS_MAX_STEPS_def)
  have "runMipsMachineToEnd m = runMipsMachineToEnd ?e"
    using it by (intro run_iterate) simp
  also have "\<dots> = runMipsMachineToEnd (stepMipsMachine ?e)"
    using it [of 10000] by (intro run_ready) simp
  also have "stepMipsMachine ?e = ?e\<lparr>status := Error, error := ''MIPS execution timed out.''\<rparr>"
    using it [of 10000] assms(4) by (intro step_timeout) (simp_all add: program_C_def MIPS_MAX_STEPS_def)
  also have "runMipsMachineToEnd \<dots> = \<dots>"
    by (intro run_done) simp
  finally show "runMipsMachineToEnd m = ?e\<lparr>status := Error, error := ''MIPS execution timed out.''\<rparr>" .
  show "steps ?e = 10000"
    using it [of 10000] assms(4) by simp
qed

subsection \<open>The state an initialisation returns\<close>

lemma init_parsed:
  assumes "parseMipsProgram src = Inr prog"
  shows "program (initializeMipsMachine src rs ms) = prog"
    and "status (initializeMipsMachine src rs ms) = Ready"
    and "pc (initializeMipsMachine src rs ms) = 0"
    and "steps (initializeMipsMachine src rs ms) = 0"
    and "registers (initializeMipsMachine src rs ms) = (foldl init_register zero_registers rs)(''$zero'' \<mapsto> 0)"
    and "memory (initializeMipsMachine src rs ms) = foldl init_memory Map.empty ms"
  using assms by (simp_all add: initializeMipsMachine_def)

lemma init_failed:
  assumes "parseMipsProgram src = Inl err"
  shows "status (initializeMipsMachine src rs ms) = Error"
    and "error (initializeMipsMachine src rs ms) = err"
    and "steps (initializeMipsMachine src rs ms) = 0"
    and "registers (initializeMipsMachine src rs ms) = zero_registers"
    and "memory (initializeMipsMachine src rs ms) = Map.empty"
  using assms by (simp_all add: initializeMipsMachine_def)

section \<open>Scenario B: arithmetic\<close>

text \<open>
  Claim C3, as stated, fails. The source of the scenario has no \<open>.text\<close> line, the
  loader starts outside the text segment, so it collects no instruction:
  initialisation returns the error state of an empty program, which running leaves as
  it is. Register \<open>$t2\<close> holds 0 and the status is \<open>error\<close>, not 12 and \<open>halted\<close>.
\<close>

theorem scenario_B_without_text_fails:
  "status (runMipsMachineToEnd (initializeMipsMachine scenario_B [] [])) = Error \<and>
   error (runMipsMachineToEnd (initializeMipsMachine scenario_B [] [])) =
     ''No MIPS instructions found in .text section.'' \<and>
   registers (runMipsMachineToEnd (initializeMipsMachine scenario_B [] [])) ''$t2'' = Some 0 \<and>
   \<not> (registers (runMipsMachineToEnd (initializeMipsMachine scenario_B [] [])) ''$t2'' = Some 12 \<and>
      status (runMipsMachineToEnd (initializeMipsMachine scenario_B [] [])) = Halted)"
proof -
  have "''.text'' \<notin> set (rawLines_of scenario_B)"
    by code_simp
  then have parsed: "parseMipsProgram scenario_B = Inl ''No MIPS instructions found in .text section.''"
    by (rule no_text_no_program)
  let ?m = "initializeMipsMachine scenario_B [] []"
  note f = init_failed [OF parsed, of "[]" "[]"]
  from f(1) have "runMipsMachineToEnd ?m = ?m"
    by (intro run_done) simp
  moreover have "zero_registers ''$t2'' = Some 0"
    by (simp add: zero_registers_apply reg_names)
  ultimately show ?thesis
    using f(1,2,4) by simp
qed

text \<open>
  Claim C3, amended: loading the same three instruction lines after a \<open>.text\<close> line,
  initialising a machine from them with empty overrides and running it to the end
  yields a state in which register \<open>$t2\<close> holds 12 and the status is \<open>halted\<close>
  (execution falls off the end of the program).
\<close>

theorem scenario_B_with_text:
  "registers (runMipsMachineToEnd (initializeMipsMachine scenario_B_text [] [])) ''$t2'' = Some 12 \<and>
   status (runMipsMachineToEnd (initializeMipsMachine scenario_B_text [] [])) = Halted"
proof -
  let ?m = "initializeMipsMachine scenario_B_text [] []"
  let ?m1 = "stepMipsMachine ?m"
  let ?m2 = "stepMipsMachine ?m1"
  let ?m3 = "stepMipsMachine ?m2"
  note i = init_parsed [OF parse_scenario_B_text, of "[]" "[]"]
  have fuel: "steps ?m + 3 \<le> MIPS_MAX_STEPS"
    by (simp add: i MIPS_MAX_STEPS_def)
  note s = scenario_B_steps [OF i(1) i(2) i(3) fuel]
  have halt: "stepMipsMachine ?m3 = ?m3\<lparr>status := Halted\<rparr>"
    using s by (intro step_halt) (simp_all add: program_B_def)
  have "runMipsMachineToEnd ?m = runMipsMachineToEnd ?m1"
    using i(2) by (rule run_ready)
  also have "\<dots> = runMipsMachineToEnd ?m2"
    using s(6) by (rule run_ready)
  also have "\<dots> = runMipsMachineToEnd ?m3"
    using s(7) by (rule run_ready)
  also have "\<dots> = runMipsMachineToEnd (stepMipsMachine ?m3)"
    using s(1) by (rule run_ready)
  also have "\<dots> = ?m3\<lparr>status := Halted\<rparr>"
    unfolding halt by (rule run_done) simp
  finally show ?thesis
    using s(4) by simp
qed

text \<open>The amended scenario, read off the theorem: the run ends halted.\<close>

theorem scenario_B_with_text_witness:
  "status (runMipsMachineToEnd (initializeMipsMachine scenario_B_text [] [])) = Halted"
  by (rule conjunct2 [OF scenario_B_with_text])

section \<open>The step counter\<close>

text \<open>
  Claim C4, as stated, fails: the call that halts the machine because the program
  counter has left the program returns before the counter is touched. After the three
  instructions of scenario B the machine is ready with 3 steps counted; the next call
  halts it and the counter is still 3.
\<close>

theorem halting_call_not_counted:
  "status (stepMipsMachine (stepMipsMachine (stepMipsMachine
      (initializeMipsMachine scenario_B_text [] [])))) = Ready \<and>
   status (stepMipsMachine (stepMipsMachine (stepMipsMachine (stepMipsMachine
      (initializeMipsMachine scenario_B_text [] []))))) = Halted \<and>
   steps (stepMipsMachine (stepMipsMachine (stepMipsMachine (stepMipsMachine
      (initializeMipsMachine scenario_B_text [] []))))) \<noteq>
     steps (stepMipsMachine (stepMipsMachine (stepMipsMachine
      (initializeMipsMachine scenario_B_text [] [])))) + 1"
proof -
  let ?m = "initializeMipsMachine scenario_B_text [] []"
  let ?m3 = "stepMipsMachine (stepMipsMachine (stepMipsMachine ?m))"
  note i = init_parsed [OF parse_scenario_B_text, of "[]" "[]"]
  have fuel: "steps ?m + 3 \<le> MIPS_MAX_STEPS"
    by (simp add: i MIPS_MAX_STEPS_def)
  note s = scenario_B_steps [OF i(1) i(2) i(3) fuel]
  have halt: "stepMipsMachine ?m3 = ?m3\<lparr>status := Halted\<rparr>"
    using s by (intro step_halt) (simp_all add: program_B_def)
  show ?thesis
    unfolding halt using s(1,3) by simp
qed

text \<open>
  Claim C4, amended: one call to step returns a state whose step counter is the input's
  plus one exactly when an instruction is fetched, that is when the input is ready, its
  program counter is inside the program and fewer than \<open>MIPS_MAX_STEPS\<close> steps have been
  counted; this includes the calls whose instruction fails and moves the machine to the
  error status. In every other case (the input is already halted or in error, the program
  counter is outside the program, or the bound is reached) the counter is unchanged.
\<close>

theorem step_counter:
  "steps (stepMipsMachine m) =
     (if status m = Ready \<and> 0 \<le> pc m \<and> pc m < int (length (instructions (program m)))
         \<and> steps m < MIPS_MAX_STEPS
      then steps m + 1 else steps m)"
proof (cases m rule: stepMipsMachine_cases)
  case idle
  then show ?thesis by simp
next
  case halt
  then show ?thesis by auto
next
  case timeout
  then show ?thesis by simp
next
  case exec
  have "steps (stepMipsMachine m) = steps (m\<lparr>steps := steps m + 1\<rparr>)"
    unfolding exec(5) by (rule steps_exec_instruction)
  with exec(1-4) show ?thesis by simp
qed

text \<open>The first step of scenario B fetches an instruction and is counted.\<close>

theorem step_counter_witness:
  "steps (stepMipsMachine (initializeMipsMachine scenario_B_text [] [])) = 1"
proof -
  note i = init_parsed [OF parse_scenario_B_text, of "[]" "[]"]
  show ?thesis
    using step_counter [of "initializeMipsMachine scenario_B_text [] []"]
    by (simp add: i program_B_def MIPS_MAX_STEPS_def)
qed

section \<open>Scenario C: the step bound\<close>

text \<open>
  Claim C5, as stated, fails in its first half: the source of the scenario has no
  \<open>.text\<close> line, so the loader collects no instruction and the machine starts in the
  error status of an empty program, with no step counted and the loader's message.
\<close>

theorem scenario_C_without_text_fails:
  "status (runMipsMachineToEnd (initializeMipsMachine scenario_C [] [])) = Error \<and>
   error (runMipsMachineToEnd (initializeMipsMachine scenario_C [] [])) =
     ''No MIPS instructions found in .text section.'' \<and>
   steps (runMipsMachineToEnd (initializeMipsMachine scenario_C [] [])) = 0 \<and>
   \<not> (steps (runMipsMachineToEnd (initializeMipsMachine scenario_C [] [])) = 10000)"
proof -
  have "''.text'' \<notin> set (rawLines_of scenario_C)"
    by code_simp
  then have parsed: "parseMipsProgram scenario_C = Inl ''No MIPS instructions found in .text section.''"
    by (rule no_text_no_program)
  let ?m = "initializeMipsMachine scenario_C [] []"
  note f = init_failed [OF parsed, of "[]" "[]"]
  from f(1) have "runMipsMachineToEnd ?m = ?m"
    by (intro run_done) simp
  then show ?thesis
    using f(1,2,3) by simp
qed

text \<open>
  Claim C5, amended: running the program of the scenario placed after a \<open>.text\<close> line
  to the end yields the error status with 10000 steps counted and the message
  \<open>MIPS execution timed out.\<close>; and in general a step of a ready state whose program
  counter is inside the program and whose step counter is 10000 or more moves to the
  error status with that message.
\<close>

theorem timeout_after_max_steps:
  "(status (runMipsMachineToEnd (initializeMipsMachine scenario_C_text [] [])) = Error \<and>
    steps (runMipsMachineToEnd (initializeMipsMachine scenario_C_text [] [])) = 10000 \<and>
    error (runMipsMachineToEnd (initializeMipsMachine scenario_C_text [] [])) =
      ''MIPS execution timed out.'') \<and>
   (status m = Ready \<and> 0 \<le> pc m \<and> pc m < int (length (instructions (program m))) \<and>
    10000 \<le> steps m \<longrightarrow>
      status (stepMipsMachine m) = Error \<and> error (stepMipsMachine m) = ''MIPS execution timed out.'')"
proof (intro conjI impI)
  let ?m = "initializeMipsMachine scenario_C_text [] []"
  note i = init_parsed [OF parse_scenario_C_text, of "[]" "[]"]
  note r = loop_run [OF i(1) i(2) i(3) i(4)]
  show "status (runMipsMachineToEnd ?m) = Error"
    and "steps (runMipsMachineToEnd ?m) = 10000"
    and "error (runMipsMachineToEnd ?m) = ''MIPS execution timed out.''"
    unfolding r(1) using r(2) by simp_all
next
  assume a: "status m = Ready \<and> 0 \<le> pc m \<and> pc m < int (length (instructions (program m))) \<and>
    10000 \<le> steps m"
  then have "stepMipsMachine m = m\<lparr>status := Error, error := ''MIPS execution timed out.''\<rparr>"
    by (intro step_timeout) (simp_all add: MIPS_MAX_STEPS_def)
  then show "status (stepMipsMachine m) = Error"
    and "error (stepMipsMachine m) = ''MIPS execution timed out.''"
    by simp_all
qed

text \<open>
  The general half at a state the loop reaches: after 10000 steps of the loop the
  machine is ready with 10000 steps counted, and the next call times out.
\<close>

theorem timeout_after_max_steps_witness:
  "status (stepMipsMachine ((stepMipsMachine ^^ 10000) (initializeMipsMachine scenario_C_text [] []))) = Error \<and>
   error (stepMipsMachine ((stepMipsMachine ^^ 10000) (initializeMipsMachine scenario_C_text [] []))) =
     ''MIPS execution timed out.''"
proof -
  let ?m = "initializeMipsMachine scenario_C_text [] []"
  note i = init_parsed [OF parse_scenario_C_text, of "[]" "[]"]
  have "steps ?m + int 10000 \<le> MIPS_MAX_STEPS"
    by (simp add: i MIPS_MAX_STEPS_def)
  from loop_iterate [OF i(1) i(2) i(3) this]
  have "status ((stepMipsMachine ^^ 10000) ?m) = Ready \<and> 0 \<le> pc ((stepMipsMachine ^^ 10000) ?m) \<and>
      pc ((stepMipsMachine ^^ 10000) ?m) < int (length (instructions (program ((stepMipsMachine ^^ 10000) ?m)))) \<and>
      10000 \<le> steps ((stepMipsMachine ^^ 10000) ?m)"
    by (simp add: i program_C_def)
  with timeout_after_max_steps [of "(stepMipsMachine ^^ 10000) ?m"] show ?thesis
    by blast
qed

section \<open>The zero register\<close>

lemma write_zero_discarded: "writeMipsRegister m ''$zero'' v = m"
  by (simp add: writeMipsRegister_def)

text \<open>
  Claim C1: in every state reached from an initialisation by any number of steps, the
  zero register holds 0, before the next call to step and after it, whatever the
  instructions are; a write to the zero register is discarded.
\<close>

theorem zero_register_always_zero:
  "registers ((stepMipsMachine ^^ n) (initializeMipsMachine src rs ms)) ''$zero'' = Some 0 \<and>
   readMipsRegister ((stepMipsMachine ^^ n) (initializeMipsMachine src rs ms)) ''$zero'' = 0 \<and>
   registers (stepMipsMachine ((stepMipsMachine ^^ n) (initializeMipsMachine src rs ms))) ''$zero'' = Some 0 \<and>
   readMipsRegister (stepMipsMachine ((stepMipsMachine ^^ n) (initializeMipsMachine src rs ms))) ''$zero'' = 0 \<and>
   writeMipsRegister ((stepMipsMachine ^^ n) (initializeMipsMachine src rs ms)) ''$zero'' v =
     (stepMipsMachine ^^ n) (initializeMipsMachine src rs ms)"
proof -
  let ?init = "initializeMipsMachine src rs ms"
  have zero: "registers ((stepMipsMachine ^^ k) ?init) ''$zero'' = Some 0" for k
  proof (induction k)
    case 0
    show ?case by (simp add: zero_init)
  next
    case (Suc k)
    then show ?case by (simp add: zero_step)
  qed
  from zero [of n] have before: "readMipsRegister ((stepMipsMachine ^^ n) ?init) ''$zero'' = 0"
    by (simp add: readMipsRegister_def)
  from zero [of "Suc n"]
  have after: "registers (stepMipsMachine ((stepMipsMachine ^^ n) ?init)) ''$zero'' = Some 0"
    by simp
  then have "readMipsRegister (stepMipsMachine ((stepMipsMachine ^^ n) ?init)) ''$zero'' = 0"
    by (simp add: readMipsRegister_def)
  with zero [of n] before after show ?thesis
    by (simp add: write_zero_discarded)
qed

definition zero_write_text :: string where
  "zero_write_text = ''.text'' @ [CHR 0x0A] @ ''li $zero,7'' @ [CHR 0x0A]"

lemma parse_zero_write_text:
  "parseMipsProgram zero_write_text =
     Inr \<lparr>instructions = [''li $zero,7''], labels = Map.empty, dataByAddress = Map.empty,
          dataAddresses = Map.empty\<rparr>"
proof -
  have "rawLines_of zero_write_text = [''.text'', ''li $zero,7'']"
    by code_simp
  moreover have "list_all plain_line [''li $zero,7'']"
    by code_simp
  ultimately show ?thesis
    by (intro parse_text_only) simp_all
qed

lemma exec_li_zero_7:
  "exec_instruction m ''li $zero,7'' = reset_zero (next_pc (writeMipsRegister m ''$zero'' 7))"
proof -
  have "rx_match re_li ''li $zero,7'' = Some [(2, ''7''), (1, ''$zero'')]"
    by code_simp
  moreover have "parseMipsNumber ''7'' = Some 7"
    by code_simp
  ultimately show ?thesis
    using exec_li_value [of "''li $zero,7''" "[(2, ''7''), (1, ''$zero'')]" 7 m] by (simp add: grp_def)
qed

text \<open>
  A program whose only instruction writes 7 to the zero register, started with an
  override that tries to preset it to 4: the instruction runs and the register is 0.
\<close>

theorem zero_register_always_zero_witness:
  "steps (stepMipsMachine (initializeMipsMachine zero_write_text [(''$zero'', 4)] [])) = 1 \<and>
   pc (stepMipsMachine (initializeMipsMachine zero_write_text [(''$zero'', 4)] [])) = 1 \<and>
   registers (initializeMipsMachine zero_write_text [(''$zero'', 4)] []) ''$zero'' = Some 0 \<and>
   registers (stepMipsMachine (initializeMipsMachine zero_write_text [(''$zero'', 4)] [])) ''$zero'' = Some 0"
proof -
  let ?m = "initializeMipsMachine zero_write_text [(''$zero'', 4)] []"
  note i = init_parsed [OF parse_zero_write_text, of "[(''$zero'', 4)]" "[]"]
  have "stepMipsMachine ?m =
      reset_zero (next_pc (writeMipsRegister (?m\<lparr>steps := steps ?m + 1\<rparr>) ''$zero'' 7))"
    using i(1-4) by (simp add: step_exec exec_li_zero_7 MIPS_MAX_STEPS_def)
  then have "steps (stepMipsMachine ?m) = 1" and "pc (stepMipsMachine ?m) = 1"
    using i(3,4) by (simp_all add: upd_defs)
  with zero_register_always_zero [of 0 zero_write_text "[(''$zero'', 4)]" "[]"] show ?thesis
    by simp
qed

section \<open>Termination of the driver\<close>

lemma run_not_ready: "status (runMipsMachineToEnd m) \<noteq> Ready"
proof (induction m rule: runMipsMachineToEnd.induct)
  case (1 machine)
  then show ?case
    by (cases "status machine = Ready") (simp_all add: run_ready run_done)
qed

lemma run_steps_bounded: "steps m \<le> MIPS_MAX_STEPS \<Longrightarrow> steps (runMipsMachineToEnd m) \<le> MIPS_MAX_STEPS"
proof (induction m rule: runMipsMachineToEnd.induct)
  case (1 machine)
  show ?case
  proof (cases "status machine = Ready")
    case True
    from "1.prems" have "steps (stepMipsMachine machine) \<le> MIPS_MAX_STEPS"
      by (simp add: steps_step)
    with "1.IH" True show ?thesis
      by (simp add: run_ready)
  next
    case False
    with "1.prems" show ?thesis by (simp add: run_done)
  qed
qed

lemma run_is_iteration:
  "\<exists>n. n \<le> (if status m = Ready then Suc (nat (MIPS_MAX_STEPS - steps m)) else 0) \<and>
       runMipsMachineToEnd m = (stepMipsMachine ^^ n) m"
proof (induction m rule: runMipsMachineToEnd.induct)
  case (1 machine)
  show ?case
  proof (cases "status machine = Ready")
    case False
    then have "runMipsMachineToEnd machine = (stepMipsMachine ^^ 0) machine"
      by (simp add: run_done)
    with False show ?thesis
      by (intro exI [of _ 0]) simp
  next
    case True
    from "1.IH" [OF True] obtain n
      where n: "n \<le> (if status (stepMipsMachine machine) = Ready
                  then Suc (nat (MIPS_MAX_STEPS - steps (stepMipsMachine machine))) else 0)"
        and run: "runMipsMachineToEnd (stepMipsMachine machine) = (stepMipsMachine ^^ n) (stepMipsMachine machine)"
      by blast
    have "Suc n \<le> Suc (nat (MIPS_MAX_STEPS - steps machine))"
    proof (cases "status (stepMipsMachine machine) = Ready")
      case False
      with n show ?thesis by simp
    next
      case ready': True
      with stepMipsMachine_progress [OF True]
      have "steps machine < MIPS_MAX_STEPS" "steps (stepMipsMachine machine) = steps machine + 1"
        by simp_all
      with n ready' show ?thesis by simp
    qed
    moreover have "runMipsMachineToEnd machine = (stepMipsMachine ^^ Suc n) machine"
      using True run by (simp add: run_ready funpow_swap1)
    ultimately show ?thesis
      using True by (intro exI [of _ "Suc n"]) simp
  qed
qed

lemma steps_init: "steps (initializeMipsMachine src rs ms) = 0"
  by (simp add: initializeMipsMachine_def split: sum.splits)

text \<open>
  Claim C2: for every state produced by an initialisation, running to the end
  terminates (the driver is a total function, and its result is reached by at most
  10001 calls to step), the state returned is halted or in error, never ready, and its
  step counter is at most \<open>MIPS_MAX_STEPS = 10000\<close>.
\<close>

theorem run_to_end_terminates:
  "(\<exists>n\<le>10001. runMipsMachineToEnd (initializeMipsMachine src rs ms) =
       (stepMipsMachine ^^ n) (initializeMipsMachine src rs ms)) \<and>
   (status (runMipsMachineToEnd (initializeMipsMachine src rs ms)) = Halted \<or>
    status (runMipsMachineToEnd (initializeMipsMachine src rs ms)) = Error) \<and>
   status (runMipsMachineToEnd (initializeMipsMachine src rs ms)) \<noteq> Ready \<and>
   steps (runMipsMachineToEnd (initializeMipsMachine src rs ms)) \<le> 10000"
proof (intro conjI)
  let ?m = "initializeMipsMachine src rs ms"
  from run_is_iteration [of ?m] obtain n
    where "n \<le> (if status ?m = Ready then Suc (nat (MIPS_MAX_STEPS - steps ?m)) else 0)"
      and "runMipsMachineToEnd ?m = (stepMipsMachine ^^ n) ?m"
    by blast
  then show "\<exists>n\<le>10001. runMipsMachineToEnd ?m = (stepMipsMachine ^^ n) ?m"
    by (intro exI [of _ n]) (simp add: steps_init MIPS_MAX_STEPS_def split: if_splits)
  show "status (runMipsMachineToEnd ?m) \<noteq> Ready"
    by (rule run_not_ready)
  then show "status (runMipsMachineToEnd ?m) = Halted \<or> status (runMipsMachineToEnd ?m) = Error"
    by (cases "status (runMipsMachineToEnd ?m)") simp_all
  show "steps (runMipsMachineToEnd ?m) \<le> 10000"
    using run_steps_bounded [of ?m] by (simp add: steps_init MIPS_MAX_STEPS_def)
qed

theorem run_to_end_terminates_witness:
  "status (runMipsMachineToEnd (initializeMipsMachine scenario_C_text [] [])) \<noteq> Ready \<and>
   steps (runMipsMachineToEnd (initializeMipsMachine scenario_C_text [] [])) \<le> 10000"
  using run_to_end_terminates [of scenario_C_text "[]" "[]"] by blast

section \<open>Registers and memory hold 32-bit values\<close>

text \<open>
  Claim C10: in the state an initialisation returns, whatever the overrides, every
  register and every stored memory word is in the range of a signed 32-bit integer, and
  every step preserves this; so it holds in every state reached.
\<close>

theorem registers_and_memory_are_words:
  "word_state (initializeMipsMachine src rs ms) \<and>
   (word_state m \<longrightarrow> word_state (stepMipsMachine m)) \<and>
   word_state ((stepMipsMachine ^^ n) (initializeMipsMachine src rs ms))"
proof (intro conjI impI)
  show init: "word_state (initializeMipsMachine src rs ms)"
    by (rule word_init)
  show "word_state (stepMipsMachine m)" if "word_state m"
    using that by (rule word_step)
  show "word_state ((stepMipsMachine ^^ n) (initializeMipsMachine src rs ms))"
  proof (induction n)
    case 0
    from init show ?case by simp
  next
    case (Suc n)
    then show ?case by (simp add: word_step)
  qed
qed

text \<open>
  Overrides out of the range are truncated: \<open>4294967301\<close> becomes 5 and
  \<open>-4294967295\<close> becomes 1.
\<close>

theorem registers_and_memory_are_words_witness:
  "registers (initializeMipsMachine scenario_B_text [(''$t0'', 4294967301)] [(''16'', - 4294967295)])
     ''$t0'' = Some 5 \<and>
   memory (initializeMipsMachine scenario_B_text [(''$t0'', 4294967301)] [(''16'', - 4294967295)])
     ''16'' = Some 1 \<and>
   word_state (initializeMipsMachine scenario_B_text [(''$t0'', 4294967301)] [(''16'', - 4294967295)]) \<and>
   word_state (stepMipsMachine
     (initializeMipsMachine scenario_B_text [(''$t0'', 4294967301)] [(''16'', - 4294967295)]))"
proof -
  let ?m = "initializeMipsMachine scenario_B_text [(''$t0'', 4294967301)] [(''16'', - 4294967295)]"
  note i = init_parsed [OF parse_scenario_B_text, of "[(''$t0'', 4294967301)]" "[(''16'', - 4294967295)]"]
  have "parseMipsNumber ''16'' = Some 16" and "String_of_number (sanitizeMipsMemoryAddress 16) = ''16''"
    by code_simp+
  then have "memory ?m ''16'' = Some 1"
    by (simp add: i(6) init_memory_def toInt32_def)
  moreover have "registers ?m ''$t0'' = Some 5"
    by (simp add: i(5) init_register_def reg_names toInt32_def)
  ultimately show ?thesis
    using registers_and_memory_are_words [of scenario_B_text "[(''$t0'', 4294967301)]"
        "[(''16'', - 4294967295)]" ?m 0]
    by simp
qed

section \<open>Store and load\<close>

lemma readMipsRegister_steps [simp]:
  "readMipsRegister (m\<lparr>steps := k\<rparr>) name = readMipsRegister m name"
  by (simp add: readMipsRegister_def)

lemma parseMipsAddressOperand_steps [simp]:
  "parseMipsAddressOperand (m\<lparr>steps := k\<rparr>) operand = parseMipsAddressOperand m operand"
  by (simp add: parseMipsAddressOperand_def Let_def split: option.splits)

lemma exec_sw_value:
  assumes "rx_match re_sw inst = Some c"
    and "parseMipsAddressOperand m (trim (grp c 2)) = Some a"
  shows "exec_instruction m inst =
     reset_zero (next_pc (touch_memory
       (m\<lparr>memory := (memory m)(String_of_number a \<mapsto> toInt32 (readMipsRegister m (grp c 1)))\<rparr>)
       (String_of_number a)))"
  using assms by (simp add: exec_instruction_sw exec_sw_def Let_def)

lemma exec_lw_value:
  assumes "rx_match re_lw inst = Some c"
    and "parseMipsAddressOperand m (trim (grp c 2)) = Some a"
  shows "exec_instruction m inst =
     reset_zero (next_pc (touch_memory
       (writeMipsRegister m (grp c 1)
          (case memory m (String_of_number a) of None \<Rightarrow> 0 | Some v \<Rightarrow> v))
       (String_of_number a)))"
  using assms by (simp add: exec_instruction_lw exec_lw_def Let_def)

lemma address_0_sp:
  "parseMipsAddressOperand m ''0($sp)'' = Some (toInt32 (readMipsRegister m ''$sp'' + 0))"
proof -
  have "rx_match re_offsetBase ''0($sp)'' = Some [(2, ''$sp''), (1, ''0'')]"
    by code_simp
  moreover have "parseMipsNumber (trim ''0'') = Some 0" and "trim ''$sp'' = ''$sp''"
    by code_simp+
  ultimately show ?thesis
    by (simp add: parseMipsAddressOperand_def grp_def reg_names sanitizeMipsMemoryAddress_def)
qed

lemma exec_sw_t0_sp:
  "exec_instruction m ''sw $t0, 0($sp)'' =
     reset_zero (next_pc (touch_memory
       (m\<lparr>memory := (memory m)(String_of_number (toInt32 (readMipsRegister m ''$sp'' + 0))
                        \<mapsto> toInt32 (readMipsRegister m ''$t0''))\<rparr>)
       (String_of_number (toInt32 (readMipsRegister m ''$sp'' + 0)))))"
proof -
  have "rx_match re_sw ''sw $t0, 0($sp)'' = Some [(2, ''0($sp)''), (1, ''$t0'')]"
    by code_simp
  moreover have "trim ''0($sp)'' = ''0($sp)''"
    by code_simp
  ultimately show ?thesis
    using exec_sw_value [of "''sw $t0, 0($sp)''" "[(2, ''0($sp)''), (1, ''$t0'')]" m
        "toInt32 (readMipsRegister m ''$sp'' + 0)"]
    by (simp add: grp_def address_0_sp)
qed

lemma exec_lw_t1_sp:
  "exec_instruction m ''lw $t1, 0($sp)'' =
     reset_zero (next_pc (touch_memory
       (writeMipsRegister m ''$t1''
          (case memory m (String_of_number (toInt32 (readMipsRegister m ''$sp'' + 0))) of
             None \<Rightarrow> 0 | Some v \<Rightarrow> v))
       (String_of_number (toInt32 (readMipsRegister m ''$sp'' + 0)))))"
proof -
  have "rx_match re_lw ''lw $t1, 0($sp)'' = Some [(2, ''0($sp)''), (1, ''$t1'')]"
    by code_simp
  moreover have "trim ''0($sp)'' = ''0($sp)''"
    by code_simp
  ultimately show ?thesis
    using exec_lw_value [of "''lw $t1, 0($sp)''" "[(2, ''0($sp)''), (1, ''$t1'')]" m
        "toInt32 (readMipsRegister m ''$sp'' + 0)"]
    by (simp add: grp_def address_0_sp)
qed

text \<open>
  Claim C6: from every ready state in which the two instructions \<open>sw $t0, 0($sp)\<close>
  and \<open>lw $t1, 0($sp)\<close> are the next two to execute (the program counter is at the
  first, and the step bound leaves room for both), whatever \<open>$sp\<close> holds and whatever
  32-bit value \<open>$t0\<close> holds, after the two steps \<open>$t1\<close> holds the value \<open>$t0\<close> had
  before the store.
\<close>

theorem store_then_load_round_trip:
  assumes ready: "status m = Ready"
    and pc: "0 \<le> pc m" "pc m + 1 < int (length (instructions (program m)))"
    and fuel: "steps m + 1 < MIPS_MAX_STEPS"
    and sw: "instructions (program m) ! nat (pc m) = ''sw $t0, 0($sp)''"
    and lw: "instructions (program m) ! nat (pc m + 1) = ''lw $t1, 0($sp)''"
    and word: "int32 (readMipsRegister m ''$t0'')"
  shows "readMipsRegister (stepMipsMachine (stepMipsMachine m)) ''$t1'' = readMipsRegister m ''$t0'' \<and>
         status (stepMipsMachine (stepMipsMachine m)) = Ready \<and>
         pc (stepMipsMachine (stepMipsMachine m)) = pc m + 2"
proof -
  let ?key = "String_of_number (toInt32 (readMipsRegister m ''$sp'' + 0))"
  let ?m1 = "stepMipsMachine m"
  have e1: "?m1 = reset_zero (next_pc (touch_memory
       (m\<lparr>steps := steps m + 1,
          memory := (memory m)(?key \<mapsto> toInt32 (readMipsRegister m ''$t0''))\<rparr>) ?key))"
    using ready pc fuel sw by (simp add: step_exec exec_sw_t0_sp)
  have f1: "status ?m1 = Ready" "pc ?m1 = pc m + 1" "steps ?m1 = steps m + 1"
      "program ?m1 = program m" "readMipsRegister ?m1 ''$sp'' = readMipsRegister m ''$sp''"
      "memory ?m1 ?key = Some (readMipsRegister m ''$t0'')"
    unfolding e1 using ready word by (simp_all add: upd_defs readMipsRegister_def toInt32_id)
  have e2: "stepMipsMachine ?m1 = reset_zero (next_pc (touch_memory
       (writeMipsRegister (?m1\<lparr>steps := steps ?m1 + 1\<rparr>) ''$t1'' (readMipsRegister m ''$t0'')) ?key))"
    using f1 pc fuel lw by (simp add: step_exec exec_lw_t1_sp)
  show ?thesis
    unfolding e2 using f1(1,2) word
    by (simp add: upd_defs readMipsRegister_def reg_names toInt32_id)
qed

definition round_trip_text :: string where
  "round_trip_text = ''.text'' @ [CHR 0x0A] @ ''sw $t0, 0($sp)'' @ [CHR 0x0A] @ ''lw $t1, 0($sp)'' @ [CHR 0x0A]"

lemma parse_round_trip_text:
  "parseMipsProgram round_trip_text =
     Inr \<lparr>instructions = [''sw $t0, 0($sp)'', ''lw $t1, 0($sp)''], labels = Map.empty,
          dataByAddress = Map.empty, dataAddresses = Map.empty\<rparr>"
proof -
  have "rawLines_of round_trip_text = [''.text'', ''sw $t0, 0($sp)'', ''lw $t1, 0($sp)'']"
    by code_simp
  moreover have "list_all plain_line [''sw $t0, 0($sp)'', ''lw $t1, 0($sp)'']"
    by code_simp
  ultimately show ?thesis
    by (intro parse_text_only) simp_all
qed

text \<open>The round trip at a negative value and at the highest word-aligned address.\<close>

theorem store_then_load_round_trip_witness:
  "readMipsRegister
     (stepMipsMachine (stepMipsMachine
        (initializeMipsMachine round_trip_text [(''$t0'', - 123456789), (''$sp'', 2147483644)] [])))
     ''$t1'' = - 123456789"
proof -
  let ?m = "initializeMipsMachine round_trip_text [(''$t0'', - 123456789), (''$sp'', 2147483644)] []"
  note i = init_parsed [OF parse_round_trip_text, of "[(''$t0'', - 123456789), (''$sp'', 2147483644)]" "[]"]
  have t0: "readMipsRegister ?m ''$t0'' = - 123456789"
    by (simp add: readMipsRegister_def i(5) init_register_def reg_names toInt32_def)
  have "readMipsRegister (stepMipsMachine (stepMipsMachine ?m)) ''$t1'' = readMipsRegister ?m ''$t0''"
    using store_then_load_round_trip [of ?m]
    by (simp add: i(1-4) t0 int32_def MIPS_MAX_STEPS_def)
  with t0 show ?thesis by simp
qed

section \<open>Wrap-around arithmetic\<close>

lemma step_arithmetic:
  assumes "status m = Ready" and "0 \<le> pc m" and "pc m < int (length (instructions (program m)))"
    and "steps m < MIPS_MAX_STEPS"
    and "rx_match re_arithmetic (instructions (program m) ! nat (pc m)) = Some c"
    and "grp c 2 \<in> MIPS_REGISTER_SET" and "grp c 2 \<noteq> ''$zero''"
  shows "registers (stepMipsMachine m) (grp c 2) =
     Some (toInt32 (if map to_lower (grp c 1) = ''add''
                    then readMipsRegister m (grp c 3) + readMipsRegister m (grp c 4)
                    else readMipsRegister m (grp c 3) - readMipsRegister m (grp c 4)))"
proof -
  have "stepMipsMachine m =
      exec_instruction (m\<lparr>steps := steps m + 1\<rparr>) (instructions (program m) ! nat (pc m))"
    using assms(1-4) by (rule step_exec)
  also note exec_arithmetic_value [OF assms(5)]
  finally show ?thesis
    using assms(6,7) by (simp add: upd_defs toInt32_idem)
qed

lemma step_addi:
  assumes "status m = Ready" and "0 \<le> pc m" and "pc m < int (length (instructions (program m)))"
    and "steps m < MIPS_MAX_STEPS"
    and "rx_match re_addi (instructions (program m) ! nat (pc m)) = Some d"
    and "parseMipsNumber (grp d 3) = Some imm"
    and "grp d 1 \<in> MIPS_REGISTER_SET" and "grp d 1 \<noteq> ''$zero''"
  shows "registers (stepMipsMachine m) (grp d 1) =
     Some (toInt32 (readMipsRegister m (grp d 2) + imm))"
proof -
  have "stepMipsMachine m =
      exec_instruction (m\<lparr>steps := steps m + 1\<rparr>) (instructions (program m) ! nat (pc m))"
    using assms(1-4) by (rule step_exec)
  also note exec_instruction_addi [OF assms(5)]
  finally show ?thesis
    using assms(6-8) by (simp add: exec_addi_def upd_defs toInt32_idem)
qed

lemma step_arithmetic_state:
  assumes "status m = Ready" and "0 \<le> pc m" and "pc m < int (length (instructions (program m)))"
    and "steps m < MIPS_MAX_STEPS"
    and "rx_match re_arithmetic (instructions (program m) ! nat (pc m)) = Some c"
  shows "status (stepMipsMachine m) = Ready" and "pc (stepMipsMachine m) = pc m + 1"
    and "error (stepMipsMachine m) = error m" and "steps (stepMipsMachine m) = steps m + 1"
proof -
  have "stepMipsMachine m =
      exec_instruction (m\<lparr>steps := steps m + 1\<rparr>) (instructions (program m) ! nat (pc m))"
    using assms(1-4) by (rule step_exec)
  also note exec_arithmetic_value [OF assms(5)]
  finally have eq: "stepMipsMachine m =
      reset_zero (next_pc (writeMipsRegister (m\<lparr>steps := steps m + 1\<rparr>) (grp c 2)
        (toInt32 (if map to_lower (grp c 1) = ''add''
                  then readMipsRegister (m\<lparr>steps := steps m + 1\<rparr>) (grp c 3) +
                       readMipsRegister (m\<lparr>steps := steps m + 1\<rparr>) (grp c 4)
                  else readMipsRegister (m\<lparr>steps := steps m + 1\<rparr>) (grp c 3) -
                       readMipsRegister (m\<lparr>steps := steps m + 1\<rparr>) (grp c 4)))))" .
  show "status (stepMipsMachine m) = Ready" and "pc (stepMipsMachine m) = pc m + 1"
    and "error (stepMipsMachine m) = error m" and "steps (stepMipsMachine m) = steps m + 1"
    unfolding eq using assms(1) by (simp_all add: upd_defs)
qed

lemma step_addi_state:
  assumes "status m = Ready" and "0 \<le> pc m" and "pc m < int (length (instructions (program m)))"
    and "steps m < MIPS_MAX_STEPS"
    and "rx_match re_addi (instructions (program m) ! nat (pc m)) = Some d"
    and "parseMipsNumber (grp d 3) = Some imm"
  shows "status (stepMipsMachine m) = Ready" and "pc (stepMipsMachine m) = pc m + 1"
    and "error (stepMipsMachine m) = error m" and "steps (stepMipsMachine m) = steps m + 1"
proof -
  have "stepMipsMachine m =
      exec_instruction (m\<lparr>steps := steps m + 1\<rparr>) (instructions (program m) ! nat (pc m))"
    using assms(1-4) by (rule step_exec)
  also note exec_instruction_addi [OF assms(5)]
  finally have eq: "stepMipsMachine m = exec_addi (m\<lparr>steps := steps m + 1\<rparr>) d" .
  show "status (stepMipsMachine m) = Ready" and "pc (stepMipsMachine m) = pc m + 1"
    and "error (stepMipsMachine m) = error m" and "steps (stepMipsMachine m) = steps m + 1"
    unfolding eq using assms(1,6) by (simp_all add: exec_addi_def upd_defs)
qed

text \<open>
  Claim C7: when a step executes an \<open>add\<close> or \<open>sub\<close> (a line matching the pattern of
  arithmetic instructions) or an \<open>addi\<close>, the destination register receives the exact
  integer sum or difference of the operands truncated to 32 bits and read as two's
  complement (what \<open>sint\<close> of the 32-bit word is): the result wraps around. Nothing
  traps: whatever the operands are, the machine stays ready, its error message is
  unchanged, the step is counted and the program counter moves to the next instruction.
  In particular \<open>0x7FFFFFFF + 1\<close> gives \<open>-2147483648\<close>.
\<close>

theorem add_sub_addi_wrap_around:
  assumes "status m = Ready" and "0 \<le> pc m" and "pc m < int (length (instructions (program m)))"
    and "steps m < MIPS_MAX_STEPS"
  shows
    "(rx_match re_arithmetic (instructions (program m) ! nat (pc m)) = Some c \<and>
      grp c 2 \<in> MIPS_REGISTER_SET \<and> grp c 2 \<noteq> ''$zero'' \<longrightarrow>
        registers (stepMipsMachine m) (grp c 2) =
          Some (sint (word_of_int
            (if map to_lower (grp c 1) = ''add''
             then readMipsRegister m (grp c 3) + readMipsRegister m (grp c 4)
             else readMipsRegister m (grp c 3) - readMipsRegister m (grp c 4)) :: 32 word))) \<and>
     (rx_match re_addi (instructions (program m) ! nat (pc m)) = Some d \<and>
      parseMipsNumber (grp d 3) = Some imm \<and>
      grp d 1 \<in> MIPS_REGISTER_SET \<and> grp d 1 \<noteq> ''$zero'' \<longrightarrow>
        registers (stepMipsMachine m) (grp d 1) =
          Some (sint (word_of_int (readMipsRegister m (grp d 2) + imm) :: 32 word))) \<and>
     toInt32 (0x7FFFFFFF + 1) = - 2147483648 \<and>
     (rx_match re_arithmetic (instructions (program m) ! nat (pc m)) = Some c \<longrightarrow>
        status (stepMipsMachine m) = Ready \<and> error (stepMipsMachine m) = error m \<and>
        pc (stepMipsMachine m) = pc m + 1 \<and> steps (stepMipsMachine m) = steps m + 1) \<and>
     (rx_match re_addi (instructions (program m) ! nat (pc m)) = Some d \<and>
      parseMipsNumber (grp d 3) = Some imm \<longrightarrow>
        status (stepMipsMachine m) = Ready \<and> error (stepMipsMachine m) = error m \<and>
        pc (stepMipsMachine m) = pc m + 1 \<and> steps (stepMipsMachine m) = steps m + 1)"
proof (intro conjI impI)
  assume a: "rx_match re_arithmetic (instructions (program m) ! nat (pc m)) = Some c \<and>
      grp c 2 \<in> MIPS_REGISTER_SET \<and> grp c 2 \<noteq> ''$zero''"
  then have "rx_match re_arithmetic (instructions (program m) ! nat (pc m)) = Some c"
    and "grp c 2 \<in> MIPS_REGISTER_SET" and "grp c 2 \<noteq> ''$zero''"
    by simp_all
  from step_arithmetic [OF assms this]
  show "registers (stepMipsMachine m) (grp c 2) =
          Some (sint (word_of_int
            (if map to_lower (grp c 1) = ''add''
             then readMipsRegister m (grp c 3) + readMipsRegister m (grp c 4)
             else readMipsRegister m (grp c 3) - readMipsRegister m (grp c 4)) :: 32 word))"
    by (simp only: toInt32_sint)
next
  assume "rx_match re_addi (instructions (program m) ! nat (pc m)) = Some d \<and>
      parseMipsNumber (grp d 3) = Some imm \<and>
      grp d 1 \<in> MIPS_REGISTER_SET \<and> grp d 1 \<noteq> ''$zero''"
  then have "rx_match re_addi (instructions (program m) ! nat (pc m)) = Some d"
    and "parseMipsNumber (grp d 3) = Some imm"
    and "grp d 1 \<in> MIPS_REGISTER_SET" and "grp d 1 \<noteq> ''$zero''"
    by simp_all
  from step_addi [OF assms this]
  show "registers (stepMipsMachine m) (grp d 1) =
          Some (sint (word_of_int (readMipsRegister m (grp d 2) + imm) :: 32 word))"
    by (simp only: toInt32_sint)
next
  show "toInt32 (0x7FFFFFFF + 1) = - 2147483648"
    by (simp add: toInt32_def)
next
  assume "rx_match re_arithmetic (instructions (program m) ! nat (pc m)) = Some c"
  from step_arithmetic_state [OF assms this]
  show "status (stepMipsMachine m) = Ready" and "error (stepMipsMachine m) = error m"
    and "pc (stepMipsMachine m) = pc m + 1" and "steps (stepMipsMachine m) = steps m + 1"
    by simp_all
next
  assume "rx_match re_addi (instructions (program m) ! nat (pc m)) = Some d \<and>
      parseMipsNumber (grp d 3) = Some imm"
  then have "rx_match re_addi (instructions (program m) ! nat (pc m)) = Some d"
    and "parseMipsNumber (grp d 3) = Some imm"
    by simp_all
  from step_addi_state [OF assms this]
  show "status (stepMipsMachine m) = Ready" and "error (stepMipsMachine m) = error m"
    and "pc (stepMipsMachine m) = pc m + 1" and "steps (stepMipsMachine m) = steps m + 1"
    by simp_all
qed

definition overflow_text :: string where
  "overflow_text = ''.text'' @ [CHR 0x0A] @ ''add $t2,$t0,$t1'' @ [CHR 0x0A]"

lemma parse_overflow_text:
  "parseMipsProgram overflow_text =
     Inr \<lparr>instructions = [''add $t2,$t0,$t1''], labels = Map.empty,
          dataByAddress = Map.empty, dataAddresses = Map.empty\<rparr>"
proof -
  have "rawLines_of overflow_text = [''.text'', ''add $t2,$t0,$t1'']"
    by code_simp
  moreover have "list_all plain_line [''add $t2,$t0,$t1'']"
    by code_simp
  ultimately show ?thesis
    by (intro parse_text_only) simp_all
qed

text \<open>
  The example of the claim, executed: \<open>$t0 = 0x7FFFFFFF\<close>, \<open>$t1 = 1\<close>,
  \<open>add $t2,$t0,$t1\<close>. The sum overflows, \<open>$t2\<close> receives \<open>-2147483648\<close>, and the machine
  is ready at the next instruction with no error message.
\<close>

theorem add_sub_addi_wrap_around_witness:
  "registers
     (stepMipsMachine (initializeMipsMachine overflow_text [(''$t0'', 0x7FFFFFFF), (''$t1'', 1)] []))
     ''$t2'' = Some (- 2147483648) \<and>
   status (stepMipsMachine
     (initializeMipsMachine overflow_text [(''$t0'', 0x7FFFFFFF), (''$t1'', 1)] [])) = Ready \<and>
   error (stepMipsMachine
     (initializeMipsMachine overflow_text [(''$t0'', 0x7FFFFFFF), (''$t1'', 1)] [])) = [] \<and>
   pc (stepMipsMachine
     (initializeMipsMachine overflow_text [(''$t0'', 0x7FFFFFFF), (''$t1'', 1)] [])) = 1 \<and>
   steps (stepMipsMachine
     (initializeMipsMachine overflow_text [(''$t0'', 0x7FFFFFFF), (''$t1'', 1)] [])) = 1"
proof -
  let ?m = "initializeMipsMachine overflow_text [(''$t0'', 0x7FFFFFFF), (''$t1'', 1)] []"
  let ?c = "[(4, ''$t1''), (3, ''$t0''), (2, ''$t2''), (1, ''add'')]"
  note i = init_parsed [OF parse_overflow_text, of "[(''$t0'', 0x7FFFFFFF), (''$t1'', 1)]" "[]"]
  have err: "error ?m = []"
    by (simp add: initializeMipsMachine_def parse_overflow_text)
  have regs: "readMipsRegister ?m ''$t0'' = 2147483647" "readMipsRegister ?m ''$t1'' = 1"
    by (simp_all add: readMipsRegister_def i(5) init_register_def reg_names toInt32_def)
  have decode: "rx_match re_arithmetic ''add $t2,$t0,$t1'' = Some ?c"
    by code_simp
  have h: "status ?m = Ready" "0 \<le> pc ?m" "pc ?m < int (length (instructions (program ?m)))"
      "steps ?m < MIPS_MAX_STEPS"
    by (simp_all add: i(1-4) MIPS_MAX_STEPS_def)
  have match: "rx_match re_arithmetic (instructions (program ?m) ! nat (pc ?m)) = Some ?c"
    by (simp add: i(1,3) decode)
  have dest: "grp ?c 2 \<in> MIPS_REGISTER_SET \<and> grp ?c 2 \<noteq> ''$zero''"
    by (simp add: grp_def reg_names)
  note t = add_sub_addi_wrap_around [OF h, where c = ?c]
  from t match dest
  have "registers (stepMipsMachine ?m) (grp ?c 2) =
      Some (sint (word_of_int
        (if map to_lower (grp ?c 1) = ''add''
         then readMipsRegister ?m (grp ?c 3) + readMipsRegister ?m (grp ?c 4)
         else readMipsRegister ?m (grp ?c 3) - readMipsRegister ?m (grp ?c 4)) :: 32 word))"
    by blast
  then have wrapped: "registers (stepMipsMachine ?m) ''$t2'' = Some (- 2147483648)"
    by (simp add: grp_def regs to_lower_def is_upper_def code_of_def)
  from t match
  have "status (stepMipsMachine ?m) = Ready \<and> error (stepMipsMachine ?m) = error ?m \<and>
        pc (stepMipsMachine ?m) = pc ?m + 1 \<and> steps (stepMipsMachine ?m) = steps ?m + 1"
    by blast
  with wrapped show ?thesis
    by (simp add: err i(3,4))
qed

section \<open>Register names outside the register file\<close>

text \<open>
  In every reachable state the register object has entries for the 32 defined names
  only: an initialisation creates exactly those and a write adds no other.
\<close>

definition known_registers :: "MipsMachineState \<Rightarrow> bool" where
  "known_registers m = (\<forall>name. name \<notin> MIPS_REGISTER_SET \<longrightarrow> registers m name = None)"

lemma known_exec:
  assumes "known_registers m"
  shows "known_registers (exec_li m c)"
  "known_registers (exec_la m c)"
  "known_registers (exec_move m c)"
  "known_registers (exec_addi m c)"
  "known_registers (exec_arithmetic m c)"
  "known_registers (exec_lw m c)"
  "known_registers (exec_sw m c)"
  "known_registers (exec_branch m c)"
  "known_registers (exec_jump m c)"
  "known_registers (exec_syscall m)"
  using assms zero_in_set
  by (auto simp: known_registers_def exec_defs upd_defs Let_def split: option.splits)

lemma known_exec_instruction: "known_registers m \<Longrightarrow> known_registers (exec_instruction m inst)"
  unfolding exec_instruction_def
  by (simp add: known_exec split: option.splits) (simp add: fail_def known_registers_def)

lemma known_step:
  assumes "known_registers m"
  shows "known_registers (stepMipsMachine m)"
proof (cases m rule: stepMipsMachine_cases)
  case exec
  from assms have "known_registers (m\<lparr>steps := steps m + 1\<rparr>)"
    by (simp add: known_registers_def)
  then show ?thesis
    unfolding exec(5) by (rule known_exec_instruction)
qed (use assms in \<open>simp_all add: known_registers_def\<close>)

lemma foldl_init_register_known:
  "(\<And>name. name \<notin> MIPS_REGISTER_SET \<Longrightarrow> regs name = None) \<Longrightarrow>
   name \<notin> MIPS_REGISTER_SET \<Longrightarrow> foldl init_register regs es name = None"
proof (induction es arbitrary: regs)
  case Nil
  then show ?case by simp
next
  case (Cons e es)
  have "foldl init_register (init_register regs e) es name = None"
  proof (rule Cons.IH)
    fix name'
    assume "name' \<notin> MIPS_REGISTER_SET"
    with Cons.prems(1) show "init_register regs e name' = None"
      by (auto simp: init_register_def)
  qed (fact Cons.prems(2))
  then show ?case by simp
qed

lemma known_init: "known_registers (initializeMipsMachine src rs ms)"
proof -
  have "foldl init_register zero_registers rs name = None" if "name \<notin> MIPS_REGISTER_SET" for name
    using _ that by (rule foldl_init_register_known) (simp add: zero_registers_apply)
  then show ?thesis
    using zero_in_set
    by (auto simp: initializeMipsMachine_def known_registers_def zero_registers_apply split: sum.splits)
qed

lemma known_reachable: "known_registers ((stepMipsMachine ^^ n) (initializeMipsMachine src rs ms))"
  by (induction n) (simp_all add: known_init known_step)

section \<open>Loading from memory that was never stored to\<close>

subsection \<open>The decimal rendering of an address determines the address\<close>

definition digits_value :: "string \<Rightarrow> int" where
  "digits_value s = foldl (\<lambda>a c. a * 10 + (of_char c - 48)) 0 s"

lemma digit_char: "0 \<le> d \<Longrightarrow> d < 10 \<Longrightarrow> of_char (char_of (48 + d :: int)) = 48 + d"
  by (simp add: of_char_of)

lemma digits_value_digits_of: "0 \<le> n \<Longrightarrow> digits_value (digits_of n) = n"
proof (induction n rule: digits_of.induct)
  case (1 n)
  show ?case
  proof (cases "n < 10")
    case True
    with "1.prems" show ?thesis
      by (subst digits_of.simps) (simp add: digits_value_def digit_char)
  next
    case False
    with "1.prems" have "digits_value (digits_of (n div 10)) = n div 10"
      by (intro "1.IH") simp_all
    moreover have "of_char (char_of (48 + n mod 10)) = 48 + n mod 10"
      by (intro digit_char) simp_all
    ultimately show ?thesis
      using False by (subst digits_of.simps) (simp add: digits_value_def)
  qed
qed

lemma digits_of_no_minus: "0 \<le> n \<Longrightarrow> CHR ''-'' \<notin> set (digits_of n)"
proof (induction n rule: digits_of.induct)
  case (1 n)
  have digit: "char_of (48 + d) \<noteq> CHR ''-''" if "0 \<le> d" "d < 10" for d :: int
  proof
    assume "char_of (48 + d) = CHR ''-''"
    then have "(of_char (char_of (48 + d)) :: int) = of_char CHR ''-''"
      by simp
    with that show False
      by (simp add: digit_char)
  qed
  show ?case
  proof (cases "n < 10")
    case True
    with "1.prems" digit [of n] show ?thesis
      by (subst digits_of.simps) simp
  next
    case False
    with "1.prems" have "CHR ''-'' \<notin> set (digits_of (n div 10))"
      by (intro "1.IH") simp_all
    moreover have "char_of (48 + n mod 10) \<noteq> CHR ''-''"
      by (intro digit) simp_all
    ultimately show ?thesis
      using False by (subst digits_of.simps) simp
  qed
qed

lemma String_of_number_inject:
  assumes "String_of_number i = String_of_number j"
  shows "i = j"
proof -
  consider (pos) "0 \<le> i" "0 \<le> j" | (neg) "i < 0" "j < 0"
    | (mixed) "i < 0" "0 \<le> j" | (mixed') "0 \<le> i" "j < 0"
    by linarith
  then show ?thesis
  proof cases
    case pos
    with assms have "digits_of i = digits_of j"
      by (simp add: String_of_number_def)
    then have "digits_value (digits_of i) = digits_value (digits_of j)"
      by simp
    with pos show ?thesis
      by (simp add: digits_value_digits_of)
  next
    case neg
    with assms have "digits_of (- i) = digits_of (- j)"
      by (simp add: String_of_number_def)
    then have "digits_value (digits_of (- i)) = digits_value (digits_of (- j))"
      by simp
    with neg show ?thesis
      by (simp add: digits_value_digits_of)
  next
    case mixed
    with assms have "CHR ''-'' # digits_of (- i) = digits_of j"
      by (simp add: String_of_number_def)
    then have "CHR ''-'' \<in> set (digits_of j)"
      by (metis list.set_intros(1))
    with mixed digits_of_no_minus show ?thesis
      by blast
  next
    case mixed'
    with assms have "digits_of i = CHR ''-'' # digits_of (- j)"
      by (simp add: String_of_number_def)
    then have "CHR ''-'' \<in> set (digits_of i)"
      by (metis list.set_intros(1))
    with mixed' digits_of_no_minus show ?thesis
      by blast
  qed
qed

subsection \<open>Only a store changes memory\<close>

lemma memory_exec:
  "memory (exec_li m c) = memory m"
  "memory (exec_la m c) = memory m"
  "memory (exec_move m c) = memory m"
  "memory (exec_addi m c) = memory m"
  "memory (exec_arithmetic m c) = memory m"
  "memory (exec_lw m c) = memory m"
  "memory (exec_branch m c) = memory m"
  "memory (exec_jump m c) = memory m"
  "memory (exec_syscall m) = memory m"
  by (simp_all add: exec_defs upd_defs Let_def split: option.splits)

lemma memory_exec_instruction:
  "memory (exec_instruction m inst) =
     (case rx_match re_sw inst of
        None \<Rightarrow> memory m
      | Some c \<Rightarrow>
          (case parseMipsAddressOperand m (trim (grp c 2)) of
             None \<Rightarrow> memory m
           | Some a \<Rightarrow> (memory m)(String_of_number a \<mapsto> toInt32 (readMipsRegister m (grp c 1)))))"
proof (cases "rx_match re_sw inst")
  case None
  then show ?thesis
    unfolding exec_instruction_def
    by (simp add: memory_exec split: option.splits) (simp add: fail_def)
next
  case (Some c)
  then show ?thesis
    by (simp add: exec_instruction_sw exec_sw_def upd_defs Let_def split: option.splits)
qed

text \<open>
  The address the next step stores to, when the next step executes a \<open>sw\<close> whose
  operand resolves; and the same for the address an \<open>lw\<close> loads from.
\<close>

definition fetches :: "MipsMachineState \<Rightarrow> bool" where
  "fetches m =
     (status m = Ready \<and> 0 \<le> pc m \<and> pc m < int (length (instructions (program m))) \<and>
      steps m < MIPS_MAX_STEPS)"

definition sw_address :: "MipsMachineState \<Rightarrow> int option" where
  "sw_address m =
     (if fetches m
      then (case rx_match re_sw (instructions (program m) ! nat (pc m)) of
              None \<Rightarrow> None
            | Some c \<Rightarrow> parseMipsAddressOperand m (trim (grp c 2)))
      else None)"

lemma memory_step:
  assumes "sw_address m \<noteq> Some a"
  shows "memory (stepMipsMachine m) (String_of_number a) = memory m (String_of_number a)"
proof (cases m rule: stepMipsMachine_cases)
  case exec
  then have "fetches m"
    by (simp add: fetches_def)
  with assms have "case rx_match re_sw (instructions (program m) ! nat (pc m)) of
              None \<Rightarrow> True
            | Some c \<Rightarrow> parseMipsAddressOperand m (trim (grp c 2)) \<noteq> Some a"
    by (simp add: sw_address_def split: option.splits)
  then show ?thesis
    unfolding exec(5) memory_exec_instruction
    by (auto split: option.splits dest: String_of_number_inject)
qed simp_all

lemma memory_unwritten:
  assumes "\<forall>i<n. sw_address ((stepMipsMachine ^^ i) m) \<noteq> Some a"
  shows "memory ((stepMipsMachine ^^ n) m) (String_of_number a) = memory m (String_of_number a)"
  using assms
proof (induction n)
  case 0
  show ?case by simp
next
  case (Suc n)
  then have "memory ((stepMipsMachine ^^ n) m) (String_of_number a) = memory m (String_of_number a)"
    and "sw_address ((stepMipsMachine ^^ n) m) \<noteq> Some a"
    by simp_all
  with memory_step [of "(stepMipsMachine ^^ n) m" a] show ?case
    by simp
qed

lemma step_lw:
  assumes "status m = Ready" and "0 \<le> pc m" and "pc m < int (length (instructions (program m)))"
    and "steps m < MIPS_MAX_STEPS"
    and "rx_match re_lw (instructions (program m) ! nat (pc m)) = Some c"
    and "parseMipsAddressOperand m (trim (grp c 2)) = Some a"
  shows "stepMipsMachine m =
     reset_zero (next_pc (touch_memory
       (writeMipsRegister (m\<lparr>steps := steps m + 1\<rparr>) (grp c 1)
          (case memory m (String_of_number a) of None \<Rightarrow> 0 | Some v \<Rightarrow> v))
       (String_of_number a)))"
proof -
  have "stepMipsMachine m =
      exec_instruction (m\<lparr>steps := steps m + 1\<rparr>) (instructions (program m) ! nat (pc m))"
    using assms(1-4) by (rule step_exec)
  also have "\<dots> = reset_zero (next_pc (touch_memory
       (writeMipsRegister (m\<lparr>steps := steps m + 1\<rparr>) (grp c 1)
          (case memory (m\<lparr>steps := steps m + 1\<rparr>) (String_of_number a) of None \<Rightarrow> 0 | Some v \<Rightarrow> v))
       (String_of_number a)))"
    using assms(5,6) by (intro exec_lw_value) simp_all
  finally show ?thesis by simp
qed

definition preset_load_text :: string where
  "preset_load_text = ''.text'' @ [CHR 0x0A] @ ''lw $t1, 0($sp)'' @ [CHR 0x0A]"

lemma parse_preset_load_text:
  "parseMipsProgram preset_load_text =
     Inr \<lparr>instructions = [''lw $t1, 0($sp)''], labels = Map.empty,
          dataByAddress = Map.empty, dataAddresses = Map.empty\<rparr>"
proof -
  have "rawLines_of preset_load_text = [''.text'', ''lw $t1, 0($sp)'']"
    by code_simp
  moreover have "list_all plain_line [''lw $t1, 0($sp)'']"
    by code_simp
  ultimately show ?thesis
    by (intro parse_text_only) simp_all
qed

text \<open>
  Claim C8, as stated, fails: the memory of the initial state holds the caller's
  initial-memory overrides. With the override \<open>0 \<mapsto> 7\<close>, the first instruction executed,
  \<open>lw $t1, 0($sp)\<close> with \<open>$sp = 0\<close>, loads 7, and no \<open>sw\<close> was executed before it.
\<close>

theorem preset_memory_is_loaded:
  "steps (initializeMipsMachine preset_load_text [] [(''0'', 7)]) = 0 \<and>
   sw_address (initializeMipsMachine preset_load_text [] [(''0'', 7)]) = None \<and>
   steps (stepMipsMachine (initializeMipsMachine preset_load_text [] [(''0'', 7)])) = 1 \<and>
   readMipsRegister (stepMipsMachine (initializeMipsMachine preset_load_text [] [(''0'', 7)])) ''$t1'' = 7 \<and>
   \<not> readMipsRegister (stepMipsMachine (initializeMipsMachine preset_load_text [] [(''0'', 7)])) ''$t1'' = 0"
proof -
  let ?m = "initializeMipsMachine preset_load_text [] [(''0'', 7)]"
  note i = init_parsed [OF parse_preset_load_text, of "[]" "[(''0'', 7)]"]
  have "parseMipsNumber ''0'' = Some 0" and zero: "String_of_number 0 = ''0''"
    by code_simp+
  then have mem: "memory ?m ''0'' = Some 7"
    by (simp add: i(6) init_memory_def sanitizeMipsMemoryAddress_def toInt32_def)
  have sp: "readMipsRegister ?m ''$sp'' = 0"
    by (simp add: readMipsRegister_def i(5) zero_registers_apply reg_names)
  have "rx_match re_sw ''lw $t1, 0($sp)'' = None"
    by code_simp
  then have no_sw: "sw_address ?m = None"
    by (simp add: sw_address_def i(1,3))
  have "stepMipsMachine ?m =
      exec_instruction (?m\<lparr>steps := steps ?m + 1\<rparr>) ''lw $t1, 0($sp)''"
    using step_exec [of ?m] by (simp add: i(1-4) MIPS_MAX_STEPS_def)
  then have "stepMipsMachine ?m = reset_zero (next_pc (touch_memory
       (writeMipsRegister (?m\<lparr>steps := steps ?m + 1\<rparr>) ''$t1'' 7) ''0''))"
    by (simp add: exec_lw_t1_sp sp zero mem toInt32_def)
  then have "steps (stepMipsMachine ?m) = 1" and "readMipsRegister (stepMipsMachine ?m) ''$t1'' = 7"
    by (simp_all add: upd_defs readMipsRegister_def reg_names toInt32_def i(4))
  with no_sw i(4) show ?thesis
    by simp
qed

text \<open>
  Claim C8, amended: in every execution from an initial state, an \<open>lw\<close> of an address
  that no initial-memory override presets and to which no \<open>sw\<close> was executed before
  loads 0: after the step the destination register reads 0, and the machine is still
  ready. The steps before the load are the steps \<open>0, \<dots>, n - 1\<close> of the execution;
  \<open>sw_address\<close> is the address such a step stores to.
\<close>

theorem load_of_unwritten_address:
  assumes reach: "m = (stepMipsMachine ^^ n) (initializeMipsMachine src rs ms)"
    and fresh: "memory (initializeMipsMachine src rs ms) (String_of_number a) = None"
    and no_store: "\<forall>i<n. sw_address ((stepMipsMachine ^^ i) (initializeMipsMachine src rs ms)) \<noteq> Some a"
    and fetch: "status m = Ready" "0 \<le> pc m" "pc m < int (length (instructions (program m)))"
      "steps m < MIPS_MAX_STEPS"
    and load: "rx_match re_lw (instructions (program m) ! nat (pc m)) = Some c"
      "parseMipsAddressOperand m (trim (grp c 2)) = Some a"
  shows "readMipsRegister (stepMipsMachine m) (grp c 1) = 0 \<and> status (stepMipsMachine m) = Ready"
proof -
  have "memory m (String_of_number a) = None"
    unfolding reach using memory_unwritten [OF no_store] fresh by simp
  with step_lw [OF fetch load]
  have s: "stepMipsMachine m =
     reset_zero (next_pc (touch_memory
       (writeMipsRegister (m\<lparr>steps := steps m + 1\<rparr>) (grp c 1) 0) (String_of_number a)))"
    by simp
  have "known_registers m"
    unfolding reach by (rule known_reachable)
  then have "registers m (grp c 1) = None" if "grp c 1 \<notin> MIPS_REGISTER_SET"
    using that by (simp add: known_registers_def)
  then show ?thesis
    unfolding s using fetch(1)
    by (auto simp: upd_defs readMipsRegister_def toInt32_def)
qed

definition unwritten_load_text :: string where
  "unwritten_load_text =
     ''.text'' @ [CHR 0x0A] @ ''sw $t0, 4($sp)'' @ [CHR 0x0A] @ ''lw $t1, 0($sp)'' @ [CHR 0x0A]"

lemma parse_unwritten_load_text:
  "parseMipsProgram unwritten_load_text =
     Inr \<lparr>instructions = [''sw $t0, 4($sp)'', ''lw $t1, 0($sp)''], labels = Map.empty,
          dataByAddress = Map.empty, dataAddresses = Map.empty\<rparr>"
proof -
  have "rawLines_of unwritten_load_text = [''.text'', ''sw $t0, 4($sp)'', ''lw $t1, 0($sp)'']"
    by code_simp
  moreover have "list_all plain_line [''sw $t0, 4($sp)'', ''lw $t1, 0($sp)'']"
    by code_simp
  ultimately show ?thesis
    by (intro parse_text_only) simp_all
qed

lemma address_4_sp:
  "parseMipsAddressOperand m ''4($sp)'' = Some (toInt32 (readMipsRegister m ''$sp'' + 4))"
proof -
  have "rx_match re_offsetBase ''4($sp)'' = Some [(2, ''$sp''), (1, ''4'')]"
    by code_simp
  moreover have "parseMipsNumber (trim ''4'') = Some 4" and "trim ''$sp'' = ''$sp''"
    by code_simp+
  ultimately show ?thesis
    by (simp add: parseMipsAddressOperand_def grp_def reg_names sanitizeMipsMemoryAddress_def)
qed

text \<open>
  A store to address 4 followed by a load from address 0, with address 8 preset and 5
  in the destination before: the load yields 0.
\<close>

theorem load_of_unwritten_address_witness:
  "registers (initializeMipsMachine unwritten_load_text [(''$t0'', 9), (''$t1'', 5)] [(''8'', 7)])
     ''$t1'' = Some 5 \<and>
   sw_address (initializeMipsMachine unwritten_load_text [(''$t0'', 9), (''$t1'', 5)] [(''8'', 7)])
     = Some 4 \<and>
   readMipsRegister
     (stepMipsMachine (stepMipsMachine
        (initializeMipsMachine unwritten_load_text [(''$t0'', 9), (''$t1'', 5)] [(''8'', 7)])))
     ''$t1'' = 0"
proof -
  let ?rs = "[(''$t0'', 9), (''$t1'', 5)]"
  let ?ms = "[(''8'', 7)]"
  let ?m = "initializeMipsMachine unwritten_load_text ?rs ?ms"
  let ?m1 = "stepMipsMachine ?m"
  note i = init_parsed [OF parse_unwritten_load_text, of ?rs ?ms]
  have "parseMipsNumber ''8'' = Some 8" and "String_of_number 8 = ''8''"
    and zero: "String_of_number 0 = ''0''" and four: "String_of_number 4 = ''4''"
    by code_simp+
  then have fresh: "memory ?m (String_of_number 0) = None"
    by (simp add: i(6) init_memory_def sanitizeMipsMemoryAddress_def toInt32_def)
  have regs: "readMipsRegister ?m ''$sp'' = 0" "registers ?m ''$t1'' = Some 5"
    by (simp_all add: readMipsRegister_def i(5) init_register_def zero_registers_apply reg_names
        toInt32_def)
  have sw: "rx_match re_sw ''sw $t0, 4($sp)'' = Some [(2, ''4($sp)''), (1, ''$t0'')]"
    and lw: "rx_match re_lw ''lw $t1, 0($sp)'' = Some [(2, ''0($sp)''), (1, ''$t1'')]"
    and trims: "trim ''4($sp)'' = ''4($sp)''" "trim ''0($sp)'' = ''0($sp)''"
    by code_simp+
  have h0: "status ?m = Ready" "0 \<le> pc ?m" "pc ?m < int (length (instructions (program ?m)))"
      "steps ?m < MIPS_MAX_STEPS"
    by (simp_all add: i(1-4) MIPS_MAX_STEPS_def)
  have store: "sw_address ?m = Some 4"
    using h0 by (simp add: sw_address_def fetches_def i(1,3) sw grp_def trims address_4_sp regs toInt32_def)
  have "?m1 = exec_instruction (?m\<lparr>steps := steps ?m + 1\<rparr>) ''sw $t0, 4($sp)''"
    using step_exec [OF h0] by (simp add: i(1,3))
  also have "\<dots> = reset_zero (next_pc (touch_memory
       (?m\<lparr>steps := steps ?m + 1,
            memory := (memory ?m)(''4'' \<mapsto> toInt32 (readMipsRegister ?m ''$t0''))\<rparr>) ''4''))"
    using exec_sw_value [of "''sw $t0, 4($sp)''" "[(2, ''4($sp)''), (1, ''$t0'')]"
        "?m\<lparr>steps := steps ?m + 1\<rparr>" 4]
    by (simp add: sw grp_def trims address_4_sp regs toInt32_def four)
  finally have e1: "?m1 = reset_zero (next_pc (touch_memory
       (?m\<lparr>steps := steps ?m + 1,
            memory := (memory ?m)(''4'' \<mapsto> toInt32 (readMipsRegister ?m ''$t0''))\<rparr>) ''4''))" .
  have h1: "status ?m1 = Ready" "0 \<le> pc ?m1" "pc ?m1 < int (length (instructions (program ?m1)))"
      "steps ?m1 < MIPS_MAX_STEPS"
    and prog1: "instructions (program ?m1) ! nat (pc ?m1) = ''lw $t1, 0($sp)''"
    and sp1: "readMipsRegister ?m1 ''$sp'' = 0"
    unfolding e1 using regs(1)
    by (simp_all add: upd_defs i(1-4) MIPS_MAX_STEPS_def readMipsRegister_def)
  have load: "rx_match re_lw (instructions (program ?m1) ! nat (pc ?m1)) = Some [(2, ''0($sp)''), (1, ''$t1'')]"
      "parseMipsAddressOperand ?m1 (trim (grp [(2, ''0($sp)''), (1, ''$t1'')] 2)) = Some 0"
    by (simp_all add: prog1 lw grp_def trims address_0_sp sp1 toInt32_def)
  have reach: "?m1 = (stepMipsMachine ^^ Suc 0) ?m"
    by simp
  have no_store: "\<forall>i<Suc 0. sw_address ((stepMipsMachine ^^ i) ?m) \<noteq> Some 0"
    by (simp add: store)
  from load_of_unwritten_address [OF reach fresh no_store h1 load]
  have "readMipsRegister (stepMipsMachine ?m1) ''$t1'' = 0"
    by (simp add: grp_def)
  with regs(2) store show ?thesis
    by simp
qed


section \<open>Instructions naming an undefined register\<close>

text \<open>
  A step that executes an instruction is described here kind by kind, as an equation on
  the whole state. The first lemmas show that a branch line is decoded as a branch only.
\<close>

lemma match_branch_starts:
  assumes "rx_match re_branch s = Some c"
  shows "starts_ci ''beq'' s \<or> starts_ci ''bne'' s"
proof -
  let ?R = "Seq sp1 (Seqs [Grp 2 re_reg, comma, Grp 3 re_reg, comma, Grp 4 re_label, Eol])"
  from assms have "rx_run (Seq (Grp 1 (Alt (LitI ''beq'') (LitI ''bne''))) ?R) s (0, []) \<noteq> []"
    unfolding re_branch_def Seqs_Cons by (rule rx_match_Bol_nonempty)
  from rx_run_Grp_Alt_LitI [OF this] show ?thesis
    by (auto simp del: rx_run.simps)
qed

lemma branch_first:
  assumes "rx_match re_branch inst = Some c"
  shows "rx_match re_li inst = None" and "rx_match re_la inst = None"
    and "rx_match re_move inst = None" and "rx_match re_addi inst = None"
    and "rx_match re_arithmetic inst = None" and "rx_match re_lw inst = None"
    and "rx_match re_sw inst = None"
proof -
  note h = match_branch_starts [OF assms]
  show "rx_match re_li inst = None"
    using h by (cases "rx_match re_li inst")
      (auto dest!: match_li_starts dest: heads_clash [where k = 0] simp: letter_simps)
  show "rx_match re_la inst = None"
    using h by (cases "rx_match re_la inst")
      (auto dest!: match_la_starts dest: heads_clash [where k = 0] simp: letter_simps)
  show "rx_match re_move inst = None"
    using h by (cases "rx_match re_move inst")
      (auto dest!: match_move_starts dest: heads_clash [where k = 0] simp: letter_simps)
  show "rx_match re_addi inst = None"
    using h by (cases "rx_match re_addi inst")
      (auto dest!: match_addi_starts dest: heads_clash [where k = 0] simp: letter_simps)
  show "rx_match re_arithmetic inst = None"
    using h by (cases "rx_match re_arithmetic inst")
      (auto dest!: match_arithmetic_starts dest: heads_clash [where k = 0] simp: letter_simps)
  show "rx_match re_lw inst = None"
    using h by (cases "rx_match re_lw inst")
      (auto dest!: match_lw_starts dest: heads_clash [where k = 0] simp: letter_simps)
  show "rx_match re_sw inst = None"
    using h by (cases "rx_match re_sw inst")
      (auto dest!: match_sw_starts dest: heads_clash [where k = 0] simp: letter_simps)
qed

lemma exec_instruction_branch:
  "rx_match re_branch inst = Some c \<Longrightarrow> exec_instruction m inst = exec_branch m c"
  by (simp add: exec_instruction_def branch_first)

text \<open>
  The state after a step that has executed an instruction and continues at \<open>target\<close>:
  one more step counted, the program counter moved, nothing else changed.
\<close>

definition counted :: "MipsMachineState \<Rightarrow> int \<Rightarrow> MipsMachineState" where
  "counted m target = m\<lparr>steps := steps m + 1, pc := target\<rparr>"

lemma counted_fields:
  "status (counted m t) = status m" "pc (counted m t) = t" "steps (counted m t) = steps m + 1"
  "registers (counted m t) = registers m" "memory (counted m t) = memory m"
  "program (counted m t) = program m" "error (counted m t) = error m"
  by (simp_all add: counted_def)

lemma write_counted:
  assumes "registers m ''$zero'' = Some 0"
  shows "reset_zero (next_pc (writeMipsRegister (m\<lparr>steps := steps m + 1\<rparr>) r v)) =
           writeMipsRegister (counted m (pc m + 1)) r v"
  using assms
  by (auto simp: writeMipsRegister_def next_pc_def reset_zero_def counted_def fun_upd_idem)

lemma load_counted:
  assumes "registers m ''$zero'' = Some 0"
  shows "reset_zero (next_pc (touch_memory (writeMipsRegister (m\<lparr>steps := steps m + 1\<rparr>) r v) key)) =
           touch_memory (writeMipsRegister (counted m (pc m + 1)) r v) key"
  using assms
  by (auto simp: writeMipsRegister_def touch_memory_def next_pc_def reset_zero_def counted_def
      fun_upd_idem)

lemma store_counted:
  assumes "registers m ''$zero'' = Some 0"
  shows "reset_zero (next_pc (touch_memory (m\<lparr>steps := steps m + 1, memory := mem\<rparr>) key)) =
           touch_memory ((counted m (pc m + 1))\<lparr>memory := mem\<rparr>) key"
  using assms
  by (simp add: touch_memory_def next_pc_def reset_zero_def counted_def fun_upd_idem)

lemma jump_counted:
  assumes "registers m ''$zero'' = Some 0"
  shows "reset_zero (m\<lparr>steps := steps m + 1, pc := t\<rparr>) = counted m t"
    and "reset_zero (next_pc (m\<lparr>steps := steps m + 1\<rparr>)) = counted m (pc m + 1)"
  using assms by (simp_all add: next_pc_def reset_zero_def counted_def fun_upd_idem)

lemma write_toInt32: "writeMipsRegister m r (toInt32 v) = writeMipsRegister m r v"
  by (simp add: writeMipsRegister_def toInt32_idem)

lemma write_fields:
  "status (writeMipsRegister m r v) = status m" "pc (writeMipsRegister m r v) = pc m"
  "error (writeMipsRegister m r v) = error m" "memory (writeMipsRegister m r v) = memory m"
  "steps (writeMipsRegister m r v) = steps m" "program (writeMipsRegister m r v) = program m"
  by (simp_all add: writeMipsRegister_def)


lemma step_by_kind:
  assumes fetch: "status m = Ready" "0 \<le> pc m" "pc m < int (length (instructions (program m)))"
      "steps m < MIPS_MAX_STEPS"
    and zero: "registers m ''$zero'' = Some 0"
    and inst: "inst = instructions (program m) ! nat (pc m)"
  shows "rx_match re_li inst = Some c \<Longrightarrow> parseMipsNumber (grp c 2) = Some v \<Longrightarrow>
      stepMipsMachine m = writeMipsRegister (counted m (pc m + 1)) (grp c 1) v"
    and "rx_match re_la inst = Some c \<Longrightarrow> dataAddresses (program m) (grp c 2) = Some a \<Longrightarrow>
      stepMipsMachine m = writeMipsRegister (counted m (pc m + 1)) (grp c 1) a"
    and "rx_match re_move inst = Some c \<Longrightarrow>
      stepMipsMachine m =
        writeMipsRegister (counted m (pc m + 1)) (grp c 1) (readMipsRegister m (grp c 2))"
    and "rx_match re_addi inst = Some c \<Longrightarrow> parseMipsNumber (grp c 3) = Some imm \<Longrightarrow>
      stepMipsMachine m =
        writeMipsRegister (counted m (pc m + 1)) (grp c 1) (readMipsRegister m (grp c 2) + imm)"
    and "rx_match re_arithmetic inst = Some c \<Longrightarrow>
      stepMipsMachine m =
        writeMipsRegister (counted m (pc m + 1)) (grp c 2)
          (if map to_lower (grp c 1) = ''add''
           then readMipsRegister m (grp c 3) + readMipsRegister m (grp c 4)
           else readMipsRegister m (grp c 3) - readMipsRegister m (grp c 4))"
    and "rx_match re_lw inst = Some c \<Longrightarrow> parseMipsAddressOperand m (trim (grp c 2)) = Some a \<Longrightarrow>
      stepMipsMachine m =
        touch_memory
          (writeMipsRegister (counted m (pc m + 1)) (grp c 1)
             (case memory m (String_of_number a) of None \<Rightarrow> 0 | Some w \<Rightarrow> w))
          (String_of_number a)"
    and "rx_match re_sw inst = Some c \<Longrightarrow> parseMipsAddressOperand m (trim (grp c 2)) = Some a \<Longrightarrow>
      stepMipsMachine m =
        touch_memory
          ((counted m (pc m + 1))
             \<lparr>memory := (memory m)(String_of_number a \<mapsto> toInt32 (readMipsRegister m (grp c 1)))\<rparr>)
          (String_of_number a)"
    and "rx_match re_branch inst = Some c \<Longrightarrow>
      \<not> (if map to_lower (grp c 1) = ''beq''
         then readMipsRegister m (grp c 2) = readMipsRegister m (grp c 3)
         else readMipsRegister m (grp c 2) \<noteq> readMipsRegister m (grp c 3)) \<Longrightarrow>
      stepMipsMachine m = counted m (pc m + 1)"
    and "rx_match re_branch inst = Some c \<Longrightarrow>
      (if map to_lower (grp c 1) = ''beq''
       then readMipsRegister m (grp c 2) = readMipsRegister m (grp c 3)
       else readMipsRegister m (grp c 2) \<noteq> readMipsRegister m (grp c 3)) \<Longrightarrow>
      labels (program m) (grp c 4) = Some t \<Longrightarrow>
      stepMipsMachine m = counted m t"
    and "rx_match re_lw inst = Some c \<Longrightarrow> parseMipsAddressOperand m (trim (grp c 2)) = None \<Longrightarrow>
      stepMipsMachine m =
        m\<lparr>steps := steps m + 1, status := Error, error := ''Invalid memory operand: '' @ grp c 2\<rparr>"
    and "rx_match re_sw inst = Some c \<Longrightarrow> parseMipsAddressOperand m (trim (grp c 2)) = None \<Longrightarrow>
      stepMipsMachine m =
        m\<lparr>steps := steps m + 1, status := Error, error := ''Invalid memory operand: '' @ grp c 2\<rparr>"
proof -
  let ?m = "m\<lparr>steps := steps m + 1\<rparr>"
  have e: "stepMipsMachine m = exec_instruction ?m inst"
    unfolding inst using fetch by (rule step_exec)
  show "rx_match re_li inst = Some c \<Longrightarrow> parseMipsNumber (grp c 2) = Some v \<Longrightarrow>
      stepMipsMachine m = writeMipsRegister (counted m (pc m + 1)) (grp c 1) v"
    unfolding e by (simp add: exec_instruction_li exec_li_def write_counted [OF zero])
  show "rx_match re_la inst = Some c \<Longrightarrow> dataAddresses (program m) (grp c 2) = Some a \<Longrightarrow>
      stepMipsMachine m = writeMipsRegister (counted m (pc m + 1)) (grp c 1) a"
    unfolding e by (simp add: exec_instruction_la exec_la_def write_counted [OF zero])
  show "rx_match re_move inst = Some c \<Longrightarrow>
      stepMipsMachine m =
        writeMipsRegister (counted m (pc m + 1)) (grp c 1) (readMipsRegister m (grp c 2))"
    unfolding e by (simp add: exec_instruction_move exec_move_def write_counted [OF zero])
  show "rx_match re_addi inst = Some c \<Longrightarrow> parseMipsNumber (grp c 3) = Some imm \<Longrightarrow>
      stepMipsMachine m =
        writeMipsRegister (counted m (pc m + 1)) (grp c 1) (readMipsRegister m (grp c 2) + imm)"
    unfolding e
    by (simp add: exec_instruction_addi exec_addi_def write_counted [OF zero] write_toInt32)
  show "rx_match re_arithmetic inst = Some c \<Longrightarrow>
      stepMipsMachine m =
        writeMipsRegister (counted m (pc m + 1)) (grp c 2)
          (if map to_lower (grp c 1) = ''add''
           then readMipsRegister m (grp c 3) + readMipsRegister m (grp c 4)
           else readMipsRegister m (grp c 3) - readMipsRegister m (grp c 4))"
    unfolding e
    by (simp add: exec_instruction_arithmetic exec_arithmetic_def Let_def write_counted [OF zero]
        write_toInt32)
  show "rx_match re_lw inst = Some c \<Longrightarrow> parseMipsAddressOperand m (trim (grp c 2)) = Some a \<Longrightarrow>
      stepMipsMachine m =
        touch_memory
          (writeMipsRegister (counted m (pc m + 1)) (grp c 1)
             (case memory m (String_of_number a) of None \<Rightarrow> 0 | Some w \<Rightarrow> w))
          (String_of_number a)"
    unfolding e by (simp add: exec_instruction_lw exec_lw_def Let_def load_counted [OF zero])
  show "rx_match re_sw inst = Some c \<Longrightarrow> parseMipsAddressOperand m (trim (grp c 2)) = Some a \<Longrightarrow>
      stepMipsMachine m =
        touch_memory
          ((counted m (pc m + 1))
             \<lparr>memory := (memory m)(String_of_number a \<mapsto> toInt32 (readMipsRegister m (grp c 1)))\<rparr>)
          (String_of_number a)"
    unfolding e by (simp add: exec_instruction_sw exec_sw_def Let_def store_counted [OF zero])
  show "rx_match re_branch inst = Some c \<Longrightarrow>
      \<not> (if map to_lower (grp c 1) = ''beq''
         then readMipsRegister m (grp c 2) = readMipsRegister m (grp c 3)
         else readMipsRegister m (grp c 2) \<noteq> readMipsRegister m (grp c 3)) \<Longrightarrow>
      stepMipsMachine m = counted m (pc m + 1)"
    unfolding e
    by (simp add: exec_instruction_branch exec_branch_def Let_def jump_counted [OF zero]
        split: if_splits)
  show "rx_match re_branch inst = Some c \<Longrightarrow>
      (if map to_lower (grp c 1) = ''beq''
       then readMipsRegister m (grp c 2) = readMipsRegister m (grp c 3)
       else readMipsRegister m (grp c 2) \<noteq> readMipsRegister m (grp c 3)) \<Longrightarrow>
      labels (program m) (grp c 4) = Some t \<Longrightarrow>
      stepMipsMachine m = counted m t"
    unfolding e
    by (simp add: exec_instruction_branch exec_branch_def Let_def jump_counted [OF zero]
        split: if_splits)
  show "rx_match re_lw inst = Some c \<Longrightarrow> parseMipsAddressOperand m (trim (grp c 2)) = None \<Longrightarrow>
      stepMipsMachine m =
        m\<lparr>steps := steps m + 1, status := Error, error := ''Invalid memory operand: '' @ grp c 2\<rparr>"
    unfolding e by (simp add: exec_instruction_lw exec_lw_def fail_def)
  show "rx_match re_sw inst = Some c \<Longrightarrow> parseMipsAddressOperand m (trim (grp c 2)) = None \<Longrightarrow>
      stepMipsMachine m =
        m\<lparr>steps := steps m + 1, status := Error, error := ''Invalid memory operand: '' @ grp c 2\<rparr>"
    unfolding e by (simp add: exec_instruction_sw exec_sw_def fail_def)
qed

lemma undefined_base_rejected:
  assumes "rx_match re_offsetBase operand = Some b" and "trim (grp b 2) \<notin> MIPS_REGISTER_SET"
  shows "parseMipsAddressOperand m operand = None"
  using assms by (simp add: parseMipsAddressOperand_def Let_def split: option.splits)


text \<open>
  Claim C9, as stated, fails for the base register of a memory operand: the address
  parser accepts a base only if it is one of the 32 defined names. The one-line program
  \<open>lw $t0, 0($q9)\<close> starts ready, and its first step leaves the machine in the error
  status with the message \<open>Invalid memory operand: 0($q9)\<close> and the program counter
  where it was.
\<close>

definition undefined_base_text :: string where
  "undefined_base_text = ''.text'' @ [CHR 0x0A] @ ''lw $t0, 0($q9)'' @ [CHR 0x0A]"

lemma parse_undefined_base_text:
  "parseMipsProgram undefined_base_text =
     Inr \<lparr>instructions = [''lw $t0, 0($q9)''], labels = Map.empty, dataByAddress = Map.empty,
          dataAddresses = Map.empty\<rparr>"
proof -
  have "rawLines_of undefined_base_text = [''.text'', ''lw $t0, 0($q9)'']"
    by code_simp
  moreover have "list_all plain_line [''lw $t0, 0($q9)'']"
    by code_simp
  ultimately show ?thesis
    by (intro parse_text_only) simp_all
qed

theorem undefined_base_register_is_rejected:
  "status (initializeMipsMachine undefined_base_text [] []) = Ready \<and>
   status (stepMipsMachine (initializeMipsMachine undefined_base_text [] [])) = Error \<and>
   error (stepMipsMachine (initializeMipsMachine undefined_base_text [] [])) =
     ''Invalid memory operand: 0($q9)'' \<and>
   pc (stepMipsMachine (initializeMipsMachine undefined_base_text [] [])) = 0 \<and>
   \<not> status (stepMipsMachine (initializeMipsMachine undefined_base_text [] [])) = Ready"
proof -
  let ?m = "initializeMipsMachine undefined_base_text [] []"
  note i = init_parsed [OF parse_undefined_base_text, of "[]" "[]"]
  have h: "status ?m = Ready" "0 \<le> pc ?m" "pc ?m < int (length (instructions (program ?m)))"
      "steps ?m < MIPS_MAX_STEPS"
    by (simp_all add: i(1-4) MIPS_MAX_STEPS_def)
  have zero: "registers ?m ''$zero'' = Some 0"
    by (rule zero_init)
  have inst: "''lw $t0, 0($q9)'' = instructions (program ?m) ! nat (pc ?m)"
    by (simp add: i(1,3))
  have lw: "rx_match re_lw ''lw $t0, 0($q9)'' = Some [(2, ''0($q9)''), (1, ''$t0'')]"
    and base: "rx_match re_offsetBase ''0($q9)'' = Some [(2, ''$q9''), (1, ''0'')]"
    and trims: "trim ''0($q9)'' = ''0($q9)''" "trim ''$q9'' = ''$q9''"
    by code_simp+
  have "parseMipsAddressOperand ?m (trim (grp [(2, ''0($q9)''), (1, ''$t0'')] 2)) = None"
    using undefined_base_rejected [of "''0($q9)''" "[(2, ''$q9''), (1, ''0'')]" ?m]
    by (simp add: grp_def trims base reg_names)
  from step_by_kind(10) [OF h zero inst lw this]
  have "stepMipsMachine ?m =
      ?m\<lparr>steps := steps ?m + 1, status := Error, error := ''Invalid memory operand: 0($q9)''\<rparr>"
    by (simp add: grp_def)
  then show ?thesis
    using i(2,3) by simp
qed

text \<open>
  Claim C9, amended: in a state reached from an initialisation, ready, with the program
  counter on an instruction and steps left, let \<open>name\<close> be a register name outside the
  32 defined ones. Reading \<open>name\<close> yields 0 and writing to it changes nothing. Whatever
  registers the instruction names, defined or not, a step that executes \<open>li\<close>, \<open>la\<close>,
  \<open>move\<close>, \<open>addi\<close>, \<open>add\<close>, \<open>sub\<close>, \<open>lw\<close>, \<open>sw\<close>, \<open>beq\<close> or \<open>bne\<close> (with a
  parseable immediate, a known label and a resolvable memory operand where the
  instruction has one) is the register write, memory access or jump of that
  instruction, made with those reads and writes, on the state with one more step
  counted: the machine stays ready and continues at the next instruction, or at the
  branch target. The exception is the base register of the memory operand of \<open>lw\<close> and
  \<open>sw\<close>: when it is \<open>name\<close>, the step ends in the error status with the message
  \<open>Invalid memory operand\<close> followed by the operand, and the program counter stays.
\<close>

theorem undefined_register_operands:
  assumes reach: "m = (stepMipsMachine ^^ n) (initializeMipsMachine src rs ms)"
    and ready: "status m = Ready"
    and pc: "0 \<le> pc m" "pc m < int (length (instructions (program m)))"
    and fuel: "steps m < MIPS_MAX_STEPS"
    and inst: "inst = instructions (program m) ! nat (pc m)"
    and undef: "name \<notin> MIPS_REGISTER_SET"
  shows
   "readMipsRegister m name = 0 \<and> writeMipsRegister x name w = x \<and>
    (rx_match re_li inst = Some c1 \<and> parseMipsNumber (grp c1 2) = Some v \<longrightarrow>
       stepMipsMachine m = writeMipsRegister (m\<lparr>steps := steps m + 1, pc := pc m + 1\<rparr>) (grp c1 1) v \<and>
       status (stepMipsMachine m) = Ready \<and> pc (stepMipsMachine m) = pc m + 1) \<and>
    (rx_match re_la inst = Some c2 \<and> dataAddresses (program m) (grp c2 2) = Some a \<longrightarrow>
       stepMipsMachine m = writeMipsRegister (m\<lparr>steps := steps m + 1, pc := pc m + 1\<rparr>) (grp c2 1) a \<and>
       status (stepMipsMachine m) = Ready \<and> pc (stepMipsMachine m) = pc m + 1) \<and>
    (rx_match re_move inst = Some c3 \<longrightarrow>
       stepMipsMachine m =
         writeMipsRegister (m\<lparr>steps := steps m + 1, pc := pc m + 1\<rparr>) (grp c3 1) (readMipsRegister m (grp c3 2)) \<and>
       status (stepMipsMachine m) = Ready \<and> pc (stepMipsMachine m) = pc m + 1) \<and>
    (rx_match re_addi inst = Some c4 \<and> parseMipsNumber (grp c4 3) = Some imm \<longrightarrow>
       stepMipsMachine m =
         writeMipsRegister (m\<lparr>steps := steps m + 1, pc := pc m + 1\<rparr>) (grp c4 1) (readMipsRegister m (grp c4 2) + imm) \<and>
       status (stepMipsMachine m) = Ready \<and> pc (stepMipsMachine m) = pc m + 1) \<and>
    (rx_match re_arithmetic inst = Some c5 \<longrightarrow>
       stepMipsMachine m =
         writeMipsRegister (m\<lparr>steps := steps m + 1, pc := pc m + 1\<rparr>) (grp c5 2)
           (if map to_lower (grp c5 1) = ''add''
            then readMipsRegister m (grp c5 3) + readMipsRegister m (grp c5 4)
            else readMipsRegister m (grp c5 3) - readMipsRegister m (grp c5 4)) \<and>
       status (stepMipsMachine m) = Ready \<and> pc (stepMipsMachine m) = pc m + 1) \<and>
    (rx_match re_lw inst = Some c6 \<and> parseMipsAddressOperand m (trim (grp c6 2)) = Some la \<longrightarrow>
       stepMipsMachine m =
         touch_memory
           (writeMipsRegister (m\<lparr>steps := steps m + 1, pc := pc m + 1\<rparr>) (grp c6 1)
              (case memory m (String_of_number la) of None \<Rightarrow> 0 | Some u \<Rightarrow> u))
           (String_of_number la) \<and>
       status (stepMipsMachine m) = Ready \<and> pc (stepMipsMachine m) = pc m + 1) \<and>
    (rx_match re_sw inst = Some c7 \<and> parseMipsAddressOperand m (trim (grp c7 2)) = Some sa \<longrightarrow>
       stepMipsMachine m =
         touch_memory
           ((m\<lparr>steps := steps m + 1, pc := pc m + 1\<rparr>)
              \<lparr>memory := (memory m)(String_of_number sa \<mapsto> toInt32 (readMipsRegister m (grp c7 1)))\<rparr>)
           (String_of_number sa) \<and>
       status (stepMipsMachine m) = Ready \<and> pc (stepMipsMachine m) = pc m + 1) \<and>
    (rx_match re_branch inst = Some c8 \<and>
     \<not> (if map to_lower (grp c8 1) = ''beq''
        then readMipsRegister m (grp c8 2) = readMipsRegister m (grp c8 3)
        else readMipsRegister m (grp c8 2) \<noteq> readMipsRegister m (grp c8 3)) \<longrightarrow>
       stepMipsMachine m = m\<lparr>steps := steps m + 1, pc := pc m + 1\<rparr> \<and>
       status (stepMipsMachine m) = Ready \<and> pc (stepMipsMachine m) = pc m + 1) \<and>
    (rx_match re_branch inst = Some c8 \<and>
     (if map to_lower (grp c8 1) = ''beq''
      then readMipsRegister m (grp c8 2) = readMipsRegister m (grp c8 3)
      else readMipsRegister m (grp c8 2) \<noteq> readMipsRegister m (grp c8 3)) \<and>
     labels (program m) (grp c8 4) = Some t \<longrightarrow>
       stepMipsMachine m = m\<lparr>steps := steps m + 1, pc := t\<rparr> \<and>
       status (stepMipsMachine m) = Ready \<and> pc (stepMipsMachine m) = t) \<and>
    (rx_match re_lw inst = Some c6 \<and> rx_match re_offsetBase (trim (grp c6 2)) = Some b \<and>
     trim (grp b 2) = name \<longrightarrow>
       status (stepMipsMachine m) = Error \<and>
       error (stepMipsMachine m) = ''Invalid memory operand: '' @ grp c6 2 \<and>
       pc (stepMipsMachine m) = pc m) \<and>
    (rx_match re_sw inst = Some c7 \<and> rx_match re_offsetBase (trim (grp c7 2)) = Some b \<and>
     trim (grp b 2) = name \<longrightarrow>
       status (stepMipsMachine m) = Error \<and>
       error (stepMipsMachine m) = ''Invalid memory operand: '' @ grp c7 2 \<and>
       pc (stepMipsMachine m) = pc m)"
proof -
  have zero: "registers m ''$zero'' = Some 0"
    unfolding reach by (rule zero_reachable)
  have "known_registers m"
    unfolding reach by (rule known_reachable)
  with undef have rd: "readMipsRegister m name = 0"
    by (simp add: known_registers_def readMipsRegister_def)
  from undef have wr: "writeMipsRegister x name w = x"
    by (simp add: writeMipsRegister_def)
  note k = step_by_kind [OF ready pc fuel zero inst, unfolded counted_def]
  note fields = write_fields touch_memory_def ready
  have li: "rx_match re_li inst = Some c1 \<and> parseMipsNumber (grp c1 2) = Some v \<longrightarrow>
       stepMipsMachine m = writeMipsRegister (m\<lparr>steps := steps m + 1, pc := pc m + 1\<rparr>) (grp c1 1) v \<and>
       status (stepMipsMachine m) = Ready \<and> pc (stepMipsMachine m) = pc m + 1"
    using k(1) [of c1 v] by (auto simp: fields)
  have la: "rx_match re_la inst = Some c2 \<and> dataAddresses (program m) (grp c2 2) = Some a \<longrightarrow>
       stepMipsMachine m = writeMipsRegister (m\<lparr>steps := steps m + 1, pc := pc m + 1\<rparr>) (grp c2 1) a \<and>
       status (stepMipsMachine m) = Ready \<and> pc (stepMipsMachine m) = pc m + 1"
    using k(2) [of c2 a] by (auto simp: fields)
  have mv: "rx_match re_move inst = Some c3 \<longrightarrow>
       stepMipsMachine m =
         writeMipsRegister (m\<lparr>steps := steps m + 1, pc := pc m + 1\<rparr>) (grp c3 1) (readMipsRegister m (grp c3 2)) \<and>
       status (stepMipsMachine m) = Ready \<and> pc (stepMipsMachine m) = pc m + 1"
    using k(3) [of c3] by (auto simp: fields)
  have ai: "rx_match re_addi inst = Some c4 \<and> parseMipsNumber (grp c4 3) = Some imm \<longrightarrow>
       stepMipsMachine m =
         writeMipsRegister (m\<lparr>steps := steps m + 1, pc := pc m + 1\<rparr>) (grp c4 1) (readMipsRegister m (grp c4 2) + imm) \<and>
       status (stepMipsMachine m) = Ready \<and> pc (stepMipsMachine m) = pc m + 1"
    using k(4) [of c4 imm] by (auto simp: fields)
  have ar: "rx_match re_arithmetic inst = Some c5 \<longrightarrow>
       stepMipsMachine m =
         writeMipsRegister (m\<lparr>steps := steps m + 1, pc := pc m + 1\<rparr>) (grp c5 2)
           (if map to_lower (grp c5 1) = ''add''
            then readMipsRegister m (grp c5 3) + readMipsRegister m (grp c5 4)
            else readMipsRegister m (grp c5 3) - readMipsRegister m (grp c5 4)) \<and>
       status (stepMipsMachine m) = Ready \<and> pc (stepMipsMachine m) = pc m + 1"
    using k(5) [of c5] by (auto simp: fields)
  have lw: "rx_match re_lw inst = Some c6 \<and> parseMipsAddressOperand m (trim (grp c6 2)) = Some la \<longrightarrow>
       stepMipsMachine m =
         touch_memory
           (writeMipsRegister (m\<lparr>steps := steps m + 1, pc := pc m + 1\<rparr>) (grp c6 1)
              (case memory m (String_of_number la) of None \<Rightarrow> 0 | Some u \<Rightarrow> u))
           (String_of_number la) \<and>
       status (stepMipsMachine m) = Ready \<and> pc (stepMipsMachine m) = pc m + 1"
    using k(6) [of c6 la] by (auto simp: fields)
  have sw: "rx_match re_sw inst = Some c7 \<and> parseMipsAddressOperand m (trim (grp c7 2)) = Some sa \<longrightarrow>
       stepMipsMachine m =
         touch_memory
           ((m\<lparr>steps := steps m + 1, pc := pc m + 1\<rparr>)
              \<lparr>memory := (memory m)(String_of_number sa \<mapsto> toInt32 (readMipsRegister m (grp c7 1)))\<rparr>)
           (String_of_number sa) \<and>
       status (stepMipsMachine m) = Ready \<and> pc (stepMipsMachine m) = pc m + 1"
    using k(7) [of c7 sa] by (auto simp: fields)
  have bn: "rx_match re_branch inst = Some c8 \<and>
     \<not> (if map to_lower (grp c8 1) = ''beq''
        then readMipsRegister m (grp c8 2) = readMipsRegister m (grp c8 3)
        else readMipsRegister m (grp c8 2) \<noteq> readMipsRegister m (grp c8 3)) \<longrightarrow>
       stepMipsMachine m = m\<lparr>steps := steps m + 1, pc := pc m + 1\<rparr> \<and>
       status (stepMipsMachine m) = Ready \<and> pc (stepMipsMachine m) = pc m + 1"
  proof
    assume a: "rx_match re_branch inst = Some c8 \<and>
     \<not> (if map to_lower (grp c8 1) = ''beq''
        then readMipsRegister m (grp c8 2) = readMipsRegister m (grp c8 3)
        else readMipsRegister m (grp c8 2) \<noteq> readMipsRegister m (grp c8 3))"
    then have "stepMipsMachine m = m\<lparr>steps := steps m + 1, pc := pc m + 1\<rparr>"
      by (intro k(8) [of c8]) (rule conjunct1, assumption, rule conjunct2, assumption)
    then show "stepMipsMachine m = m\<lparr>steps := steps m + 1, pc := pc m + 1\<rparr> \<and>
       status (stepMipsMachine m) = Ready \<and> pc (stepMipsMachine m) = pc m + 1"
      by (simp add: fields)
  qed
  have bt: "rx_match re_branch inst = Some c8 \<and>
     (if map to_lower (grp c8 1) = ''beq''
      then readMipsRegister m (grp c8 2) = readMipsRegister m (grp c8 3)
      else readMipsRegister m (grp c8 2) \<noteq> readMipsRegister m (grp c8 3)) \<and>
     labels (program m) (grp c8 4) = Some t \<longrightarrow>
       stepMipsMachine m = m\<lparr>steps := steps m + 1, pc := t\<rparr> \<and>
       status (stepMipsMachine m) = Ready \<and> pc (stepMipsMachine m) = t"
  proof
    assume a: "rx_match re_branch inst = Some c8 \<and>
     (if map to_lower (grp c8 1) = ''beq''
      then readMipsRegister m (grp c8 2) = readMipsRegister m (grp c8 3)
      else readMipsRegister m (grp c8 2) \<noteq> readMipsRegister m (grp c8 3)) \<and>
     labels (program m) (grp c8 4) = Some t"
    have "stepMipsMachine m = m\<lparr>steps := steps m + 1, pc := t\<rparr>"
    proof (rule k(9) [of c8 t])
      from a show "rx_match re_branch inst = Some c8" by (rule conjunct1)
      from a show "if map to_lower (grp c8 1) = ''beq''
        then readMipsRegister m (grp c8 2) = readMipsRegister m (grp c8 3)
        else readMipsRegister m (grp c8 2) \<noteq> readMipsRegister m (grp c8 3)"
        by (rule conjunct1 [OF conjunct2])
      from a show "labels (program m) (grp c8 4) = Some t"
        by (rule conjunct2 [OF conjunct2])
    qed
    then show "stepMipsMachine m = m\<lparr>steps := steps m + 1, pc := t\<rparr> \<and>
       status (stepMipsMachine m) = Ready \<and> pc (stepMipsMachine m) = t"
      by (simp add: fields)
  qed
  have lb: "rx_match re_lw inst = Some c6 \<and> rx_match re_offsetBase (trim (grp c6 2)) = Some b \<and>
     trim (grp b 2) = name \<longrightarrow>
       status (stepMipsMachine m) = Error \<and>
       error (stepMipsMachine m) = ''Invalid memory operand: '' @ grp c6 2 \<and>
       pc (stepMipsMachine m) = pc m"
    using k(10) [of c6] undefined_base_rejected [of "trim (grp c6 2)" b m] undef by auto
  have sb: "rx_match re_sw inst = Some c7 \<and> rx_match re_offsetBase (trim (grp c7 2)) = Some b \<and>
     trim (grp b 2) = name \<longrightarrow>
       status (stepMipsMachine m) = Error \<and>
       error (stepMipsMachine m) = ''Invalid memory operand: '' @ grp c7 2 \<and>
       pc (stepMipsMachine m) = pc m"
    using k(11) [of c7] undefined_base_rejected [of "trim (grp c7 2)" b m] undef by auto
  show ?thesis
    by (intro conjI rd wr li la mv ai ar lw sw bn bt lb sb)
qed


text \<open>
  Four instructions that name the undefined register \<open>$q9\<close>, executed one after the
  other with \<open>$t0\<close> preset to 3: \<open>li $q9, 5\<close> only counts the step, \<open>move $t0, $q9\<close>
  sets \<open>$t0\<close> to 0, \<open>addi $t1, $q9, 7\<close> sets \<open>$t1\<close> to 7, and \<open>lw $t2, 0($q9)\<close>
  stops the machine with an error.
\<close>

definition undefined_register_text :: string where
  "undefined_register_text =
     ''.text'' @ [CHR 0x0A] @ ''li $q9, 5'' @ [CHR 0x0A] @ ''move $t0, $q9'' @ [CHR 0x0A] @
     ''addi $t1, $q9, 7'' @ [CHR 0x0A] @ ''lw $t2, 0($q9)'' @ [CHR 0x0A]"

lemma parse_undefined_register_text:
  "parseMipsProgram undefined_register_text =
     Inr \<lparr>instructions = [''li $q9, 5'', ''move $t0, $q9'', ''addi $t1, $q9, 7'', ''lw $t2, 0($q9)''],
          labels = Map.empty, dataByAddress = Map.empty, dataAddresses = Map.empty\<rparr>"
proof -
  have "rawLines_of undefined_register_text =
      [''.text'', ''li $q9, 5'', ''move $t0, $q9'', ''addi $t1, $q9, 7'', ''lw $t2, 0($q9)'']"
    by code_simp
  moreover have
    "list_all plain_line [''li $q9, 5'', ''move $t0, $q9'', ''addi $t1, $q9, 7'', ''lw $t2, 0($q9)'']"
    by code_simp
  ultimately show ?thesis
    by (intro parse_text_only) simp_all
qed

theorem undefined_register_operands_witness:
  "registers (initializeMipsMachine undefined_register_text [(''$t0'', 3)] []) ''$t0'' = Some 3 \<and>
   stepMipsMachine (initializeMipsMachine undefined_register_text [(''$t0'', 3)] []) =
     (initializeMipsMachine undefined_register_text [(''$t0'', 3)] [])\<lparr>steps := 1, pc := 1\<rparr> \<and>
   status ((stepMipsMachine ^^ 2)
     (initializeMipsMachine undefined_register_text [(''$t0'', 3)] [])) = Ready \<and>
   pc ((stepMipsMachine ^^ 2)
     (initializeMipsMachine undefined_register_text [(''$t0'', 3)] [])) = 2 \<and>
   registers ((stepMipsMachine ^^ 2)
     (initializeMipsMachine undefined_register_text [(''$t0'', 3)] [])) ''$t0'' = Some 0 \<and>
   status ((stepMipsMachine ^^ 3)
     (initializeMipsMachine undefined_register_text [(''$t0'', 3)] [])) = Ready \<and>
   pc ((stepMipsMachine ^^ 3)
     (initializeMipsMachine undefined_register_text [(''$t0'', 3)] [])) = 3 \<and>
   registers ((stepMipsMachine ^^ 3)
     (initializeMipsMachine undefined_register_text [(''$t0'', 3)] [])) ''$t1'' = Some 7 \<and>
   status ((stepMipsMachine ^^ 4)
     (initializeMipsMachine undefined_register_text [(''$t0'', 3)] [])) = Error \<and>
   error ((stepMipsMachine ^^ 4)
     (initializeMipsMachine undefined_register_text [(''$t0'', 3)] [])) =
     ''Invalid memory operand: 0($q9)'' \<and>
   pc ((stepMipsMachine ^^ 4)
     (initializeMipsMachine undefined_register_text [(''$t0'', 3)] [])) = 3"
proof -
  let ?m = "initializeMipsMachine undefined_register_text [(''$t0'', 3)] []"
  note i = init_parsed [OF parse_undefined_register_text, of "[(''$t0'', 3)]" "[]"]
  note fields = write_fields
  have q9: "''$q9'' \<notin> MIPS_REGISTER_SET"
    by (simp add: reg_names)
  have t0: "registers ?m ''$t0'' = Some 3"
    by (simp add: i(5) init_register_def reg_names toInt32_def)
  have li: "rx_match re_li ''li $q9, 5'' = Some [(2, ''5''), (1, ''$q9'')]"
    and five: "parseMipsNumber ''5'' = Some 5"
    and move: "rx_match re_move ''move $t0, $q9'' = Some [(2, ''$q9''), (1, ''$t0'')]"
    and addi: "rx_match re_addi ''addi $t1, $q9, 7'' = Some [(3, ''7''), (2, ''$q9''), (1, ''$t1'')]"
    and seven: "parseMipsNumber ''7'' = Some 7"
    and lw: "rx_match re_lw ''lw $t2, 0($q9)'' = Some [(2, ''0($q9)''), (1, ''$t2'')]"
    and base: "rx_match re_offsetBase ''0($q9)'' = Some [(2, ''$q9''), (1, ''0'')]"
    and trims: "trim ''0($q9)'' = ''0($q9)''" "trim ''$q9'' = ''$q9''"
    by code_simp+
  have h0: "status ?m = Ready" "0 \<le> pc ?m" "pc ?m < int (length (instructions (program ?m)))"
      "steps ?m < MIPS_MAX_STEPS"
    by (simp_all add: i(1-4) MIPS_MAX_STEPS_def)
  have r0: "?m = (stepMipsMachine ^^ 0) ?m"
    by simp
  have f0: "''li $q9, 5'' = instructions (program ?m) ! nat (pc ?m)"
    by (simp add: i(1,3))
  note s0 = undefined_register_operands [where name = "''$q9''" and v = 5
      and ?c1.0 = "[(2, ''5''), (1, ''$q9'')]", OF r0 h0 f0 q9]
  let ?m1 = "?m\<lparr>steps := 1, pc := 1\<rparr>"
  have first: "stepMipsMachine ?m = ?m1"
  proof -
    from s0 li five
    have "stepMipsMachine ?m = writeMipsRegister (?m\<lparr>steps := steps ?m + 1, pc := pc ?m + 1\<rparr>) ''$q9'' 5"
      by (simp add: grp_def)
    moreover from s0 have "writeMipsRegister (?m\<lparr>steps := steps ?m + 1, pc := pc ?m + 1\<rparr>) ''$q9'' 5 = ?m\<lparr>steps := steps ?m + 1, pc := pc ?m + 1\<rparr>"
      by blast
    ultimately show ?thesis
      by (simp add: i(3,4))
  qed
  have h1: "status ?m1 = Ready" "0 \<le> pc ?m1" "pc ?m1 < int (length (instructions (program ?m1)))"
      "steps ?m1 < MIPS_MAX_STEPS"
    by (simp_all add: fields i(1,2,4) MIPS_MAX_STEPS_def)
  have r1: "?m1 = (stepMipsMachine ^^ Suc 0) ?m"
    by (simp add: first)
  have f1: "''move $t0, $q9'' = instructions (program ?m1) ! nat (pc ?m1)"
    by (simp add: fields i(1))
  note s1 = undefined_register_operands [where name = "''$q9''"
      and ?c3.0 = "[(2, ''$q9''), (1, ''$t0'')]", OF r1 h1 f1 q9]
  let ?m2 = "writeMipsRegister (?m\<lparr>steps := 2, pc := 2\<rparr>) ''$t0'' 0"
  have second: "stepMipsMachine ?m1 = ?m2"
  proof -
    from s1 move
    have "stepMipsMachine ?m1 =
        writeMipsRegister (?m1\<lparr>steps := steps ?m1 + 1, pc := pc ?m1 + 1\<rparr>) ''$t0'' (readMipsRegister ?m1 ''$q9'')"
      by (simp add: grp_def)
    moreover from s1 have "readMipsRegister ?m1 ''$q9'' = 0"
      by blast
    ultimately show ?thesis
      by (simp add: fields)
  qed
  have h2: "status ?m2 = Ready" "0 \<le> pc ?m2" "pc ?m2 < int (length (instructions (program ?m2)))"
      "steps ?m2 < MIPS_MAX_STEPS"
    by (simp_all add: fields i(1,2,4) MIPS_MAX_STEPS_def)
  have r2: "?m2 = (stepMipsMachine ^^ Suc (Suc 0)) ?m"
    by (simp add: first second)
  have f2: "''addi $t1, $q9, 7'' = instructions (program ?m2) ! nat (pc ?m2)"
    by (simp add: fields i(1))
  note s2 = undefined_register_operands [where name = "''$q9''" and imm = 7
      and ?c4.0 = "[(3, ''7''), (2, ''$q9''), (1, ''$t1'')]", OF r2 h2 f2 q9]
  let ?m3 = "writeMipsRegister (?m2\<lparr>steps := 3, pc := 3\<rparr>) ''$t1'' 7"
  have third: "stepMipsMachine ?m2 = ?m3"
  proof -
    from s2 addi seven
    have "stepMipsMachine ?m2 =
        writeMipsRegister (?m2\<lparr>steps := steps ?m2 + 1, pc := pc ?m2 + 1\<rparr>) ''$t1'' (readMipsRegister ?m2 ''$q9'' + 7)"
      by (simp add: grp_def)
    moreover from s2 have "readMipsRegister ?m2 ''$q9'' = 0"
      by blast
    ultimately show ?thesis
      by (simp add: fields)
  qed
  have h3: "status ?m3 = Ready" "0 \<le> pc ?m3" "pc ?m3 < int (length (instructions (program ?m3)))"
      "steps ?m3 < MIPS_MAX_STEPS"
    by (simp_all add: fields i(1,2,4) MIPS_MAX_STEPS_def)
  have r3: "?m3 = (stepMipsMachine ^^ Suc (Suc (Suc 0))) ?m"
    by (simp add: first second third)
  have f3: "''lw $t2, 0($q9)'' = instructions (program ?m3) ! nat (pc ?m3)"
    by (simp add: fields i(1))
  note s3 = undefined_register_operands [where name = "''$q9''"
      and ?c6.0 = "[(2, ''0($q9)''), (1, ''$t2'')]" and b = "[(2, ''$q9''), (1, ''0'')]",
      OF r3 h3 f3 q9]
  have fourth: "status (stepMipsMachine ?m3) = Error"
      "error (stepMipsMachine ?m3) = ''Invalid memory operand: 0($q9)''"
      "pc (stepMipsMachine ?m3) = 3"
    using s3 lw base by (simp_all add: grp_def trims fields)
  have two: "(stepMipsMachine ^^ 2) ?m = ?m2"
    and three: "(stepMipsMachine ^^ 3) ?m = ?m3"
    and four: "(stepMipsMachine ^^ 4) ?m = stepMipsMachine ?m3"
    by (simp_all add: numeral_2_eq_2 numeral_3_eq_3 eval_nat_numeral first second third)
  have c2: "registers ?m2 ''$t0'' = Some 0" "registers ?m3 ''$t1'' = Some 7"
    by (simp_all add: writeMipsRegister_def reg_names toInt32_def)
  show ?thesis
    unfolding two three four first
    by (intro conjI t0 refl c2 fourth h2(1) h3(1)) (simp_all add: fields)
qed

end
